theory Spec2Isabelle
  imports Main
begin

section \<open>Calendar dates of the \<open>datetime\<close> module\<close>

text \<open>
  The resolver of the repository computes with \<open>datetime.date\<close> values. The library
  adds a \<open>timedelta\<close> to a date, and reads its weekday, on the date's proleptic Gregorian
  ordinal (day 1 is 0001-01-01, the last day 9999-12-31 has ordinal 3652059), and the
  order of dates is the order of their ordinals. In the resolver a date is therefore its
  ordinal, an \<open>int\<close>; the triple of year, month and day is the record \<open>date\<close>, which
  the parser builds and \<open>isoformat\<close> prints, and \<open>toordinal\<close> maps one to the other.
\<close>

record date =
  year :: int
  month :: int
  day :: int

definition MINYEAR :: int where
  "MINYEAR = 1"

definition MAXYEAR :: int where
  "MAXYEAR = 9999"

definition MAXORDINAL :: int where
  "MAXORDINAL = 3652059"

definition is_leap :: "int \<Rightarrow> bool" where
  "is_leap y = (y mod 4 = 0 \<and> (y mod 100 \<noteq> 0 \<or> y mod 400 = 0))"

definition DAYS_IN_MONTH :: "int list" where
  "DAYS_IN_MONTH = [-1, 31, 28, 31, 30, 31, 30, 31, 31, 30, 31, 30, 31]"

definition DAYS_BEFORE_MONTH :: "int list" where
  "DAYS_BEFORE_MONTH = [-1, 0, 31, 59, 90, 120, 151, 181, 212, 243, 273, 304, 334]"

definition days_in_month :: "int \<Rightarrow> int \<Rightarrow> int" where
  \<comment> \<open>called with \<open>1 \<le> m \<le> 12\<close> only\<close>
  "days_in_month y m = (if m = 2 \<and> is_leap y then 29 else DAYS_IN_MONTH ! nat m)"

definition days_before_year :: "int \<Rightarrow> int" where
  "days_before_year y' =
     (let y = y' - 1 in y * 365 + y div 4 - y div 100 + y div 400)"

definition days_before_month :: "int \<Rightarrow> int \<Rightarrow> int" where
  "days_before_month y m =
     DAYS_BEFORE_MONTH ! nat m + (if m > 2 \<and> is_leap y then 1 else 0)"

definition ymd2ord :: "int \<Rightarrow> int \<Rightarrow> int \<Rightarrow> int" where
  "ymd2ord y m d = days_before_year y + days_before_month y m + d"

definition toordinal :: "date \<Rightarrow> int" where
  "toordinal dt = ymd2ord (year dt) (month dt) (day dt)"

definition weekday :: "int \<Rightarrow> int" where
  \<comment> \<open>\<open>date.weekday()\<close>: Monday is 0, Friday 4, Saturday 5, Sunday 6\<close>
  "weekday d = (d + 6) mod 7"

section \<open>Errors\<close>

text \<open>
  Both \<open>InvalidPredictionDateError\<close> classes keep only the message they format. The
  message is modelled by the values printed in it: \<open>LowerMsg\<close> is the text of
  \<open>lower=True\<close> (the date the data starts at, the sequence length, the first date the
  model can predict for, the prediction date), \<open>UpperMsg\<close> the other text (the date the
  data ends at, the day after it, the prediction date). A Python string is the list of
  its code points, a \<open>ustring\<close>.
\<close>

datatype message =
    LowerMsg int int int int
  | UpperMsg int int int

type_synonym ustring = "nat list"

datatype error =
    ValueError
  | OverflowError
  | IndexError
  | TypeError
  | InvalidDateError ustring
  | InvalidPredictionDateError message
  | utils_InvalidPredictionDateError message

definition timedelta :: "int \<Rightarrow> error + int" where
  \<comment> \<open>\<open>dt.timedelta(days=n)\<close>, as its number of days; the library bounds it by 999999999\<close>
  "timedelta n = (if - 999999999 \<le> n \<and> n \<le> 999999999 then Inr n else Inl OverflowError)"

definition date_add :: "int \<Rightarrow> int \<Rightarrow> error + int" where
  \<comment> \<open>\<open>date + timedelta\<close>: \<open>OverflowError\<close> outside 0001-01-01 .. 9999-12-31\<close>
  "date_add d n =
     (let k = d + n in if 0 < k \<and> k \<le> MAXORDINAL then Inr k else Inl OverflowError)"

definition date_sub :: "int \<Rightarrow> int \<Rightarrow> error + int" where
  \<comment> \<open>\<open>date - timedelta\<close> is \<open>date + timedelta(-days)\<close>\<close>
  "date_sub d n = date_add d (- n)"

definition InvalidPredictionDateError_init :: "int \<Rightarrow> int \<Rightarrow> int \<Rightarrow> bool \<Rightarrow> error" where
  \<comment> \<open>the constructor of model/keras_models/utils.py; formatting the message adds days to
      \<open>df_date\<close>, which can itself raise\<close>
  "InvalidPredictionDateError_init pred_date df_date seq_len lower =
     (if lower then
        (case timedelta seq_len of
           Inl e \<Rightarrow> e
         | Inr td \<Rightarrow>
             (case date_add df_date td of
                Inl e \<Rightarrow> e
              | Inr start \<Rightarrow> InvalidPredictionDateError (LowerMsg df_date seq_len start pred_date)))
      else
        (case date_add df_date 1 of
           Inl e \<Rightarrow> e
         | Inr till \<Rightarrow> InvalidPredictionDateError (UpperMsg df_date till pred_date)))"

definition utils_InvalidPredictionDateError_init :: "int \<Rightarrow> int \<Rightarrow> error" where
  \<comment> \<open>the constructor of utils/utils.py\<close>
  "utils_InvalidPredictionDateError_init pred_date df_last_date =
     (case date_add df_last_date 1 of
        Inl e \<Rightarrow> e
      | Inr till \<Rightarrow> utils_InvalidPredictionDateError (UpperMsg df_last_date till pred_date))"

section \<open>The two resolvers\<close>

text \<open>
  \<open>get_correct_pred_date\<close> of model/keras_models/utils.py: the lower bound from the
  sequence length, the upper bound from the last date of the data, then the weekend snap.
\<close>

definition get_correct_pred_date :: "int \<Rightarrow> int \<Rightarrow> int \<Rightarrow> int \<Rightarrow> error + int" where
  "get_correct_pred_date pred_date df_first_date df_last_date seq_len =
     (case timedelta seq_len of
        Inl e \<Rightarrow> Inl e
      | Inr td \<Rightarrow>
     (case date_add df_first_date td of
        Inl e \<Rightarrow> Inl e
      | Inr earliest \<Rightarrow>
          if earliest > pred_date
          then Inl (InvalidPredictionDateError_init pred_date df_first_date seq_len True)
          else
            (case
               (if weekday df_last_date = 4 then
                  (case date_add df_last_date 3 of
                     Inl e \<Rightarrow> Some e
                   | Inr monday \<Rightarrow>
                       if pred_date > monday
                       then Some (InvalidPredictionDateError_init pred_date df_last_date seq_len False)
                       else None)
                else
                  (case date_sub pred_date 1 of
                     Inl e \<Rightarrow> Some e
                   | Inr day_before \<Rightarrow>
                       if df_last_date < day_before
                       then Some (InvalidPredictionDateError_init pred_date df_last_date seq_len False)
                       else None))
             of
               Some e \<Rightarrow> Inl e
             | None \<Rightarrow>
                 if weekday pred_date = 5 then date_add pred_date 2
                 else if weekday pred_date = 6 then date_add pred_date 1
                 else Inr pred_date)))"

text \<open>
  \<open>get_correct_pred_date\<close> of utils/utils.py, which has no sequence length and no first
  date: the Saturday and the Sunday after a Friday \<open>df_last_date\<close> move to the Monday,
  any other date is checked against the upper bound and returned as it is.
\<close>

definition utils_get_correct_pred_date :: "int \<Rightarrow> int \<Rightarrow> error + int" where
  "utils_get_correct_pred_date pred_date df_last_date =
     (if weekday df_last_date = 4 then
        (case date_add df_last_date 1 of
           Inl e \<Rightarrow> Inl e
         | Inr sat \<Rightarrow>
             if pred_date = sat then date_add pred_date 2
             else
               (case date_add df_last_date 2 of
                  Inl e \<Rightarrow> Inl e
                | Inr sun \<Rightarrow>
                    if pred_date = sun then date_add pred_date 1
                    else
                      (case date_add df_last_date 3 of
                         Inl e \<Rightarrow> Inl e
                       | Inr monday \<Rightarrow>
                           if pred_date > monday
                           then Inl (utils_InvalidPredictionDateError_init pred_date df_last_date)
                           else Inr pred_date)))
      else
        (case date_sub pred_date 1 of
           Inl e \<Rightarrow> Inl e
         | Inr day_before \<Rightarrow>
             if df_last_date < day_before
             then Inl (utils_InvalidPredictionDateError_init pred_date df_last_date)
             else Inr pred_date))"

section \<open>Parsing and printing a date\<close>

text \<open>
  \<open>datetime.strptime(s, '%Y-%m-%d')\<close> compiles the format to the regular expression
  \<^verbatim>\<open>(?P<Y>\d\d\d\d)-(?P<m>1[0-2]|0[1-9]|[1-9])-(?P<d>3[0-1]|[1-2]\d|0[1-9]|[1-9]| [1-9])\<close>,
  matches it at the start of the string, raises \<open>ValueError\<close> when there is no match or
  when text remains after the match, and then builds the date, which raises
  \<open>ValueError\<close> for a year 0 or a day the month does not have. A pattern is modelled
  by the list of its matches, each the matched text with the rest of the input, in the
  order in which the backtracking matcher tries them.

  In the expression \<^verbatim>\<open>\d\<close> matches every Unicode decimal digit, of whatever script,
  and \<open>int\<close> reads them all; the classes written with brackets are ASCII. Which
  characters beyond ASCII are decimal digits is decided by the Unicode database of the
  interpreter, which is not part of the repository. It is a parameter of the parser:
  the list of the code points of the digit zero of each script, whose ten digits follow
  one another from the zero (1632 is the Arabic-Indic zero).
\<close>

type_synonym unicode_digits = "nat list"

definition ustr :: "string \<Rightarrow> ustring" where
  \<comment> \<open>the code points of a literal\<close>
  "ustr s = map of_char s"

definition decimal :: "unicode_digits \<Rightarrow> nat \<Rightarrow> nat option" where
  \<comment> \<open>the value of a decimal digit, \<open>None\<close> for any other character\<close>
  "decimal ucd c =
     (if c < 128 then (if 48 \<le> c \<and> c \<le> 57 then Some (c - 48) else None)
      else (case find (\<lambda>z. z \<le> c \<and> c < z + 10) ucd of
              None \<Rightarrow> None
            | Some z \<Rightarrow> Some (c - z)))"

type_synonym pattern = "ustring \<Rightarrow> (ustring \<times> ustring) list"

definition one_of :: "string \<Rightarrow> pattern" where
  \<comment> \<open>a character class of ASCII characters\<close>
  "one_of cls s =
     (case s of [] \<Rightarrow> [] | c # rest \<Rightarrow> if c \<in> set (ustr cls) then [([c], rest)] else [])"

definition digit :: "unicode_digits \<Rightarrow> pattern" where
  \<comment> \<open>\<^verbatim>\<open>\d\<close>\<close>
  "digit ucd s =
     (case s of
        [] \<Rightarrow> []
      | c # rest \<Rightarrow> (case decimal ucd c of None \<Rightarrow> [] | Some v \<Rightarrow> [([c], rest)]))"

definition seq :: "pattern \<Rightarrow> pattern \<Rightarrow> pattern" where
  "seq p q s = concat (map (\<lambda>(x, r). map (\<lambda>(y, r'). (x @ y, r')) (q r)) (p s))"

definition alt :: "pattern list \<Rightarrow> pattern" where
  "alt ps s = concat (map (\<lambda>p. p s) ps)"

definition re_Y :: "unicode_digits \<Rightarrow> pattern" where
  "re_Y ucd = seq (digit ucd) (seq (digit ucd) (seq (digit ucd) (digit ucd)))"

definition re_m :: pattern where
  "re_m = alt [seq (one_of ''1'') (one_of ''012''),
               seq (one_of ''0'') (one_of ''123456789''),
               one_of ''123456789'']"

definition re_d :: "unicode_digits \<Rightarrow> pattern" where
  "re_d ucd = alt [seq (one_of ''3'') (one_of ''01''),
                   seq (one_of ''12'') (digit ucd),
                   seq (one_of ''0'') (one_of ''123456789''),
                   one_of ''123456789'',
                   seq (one_of '' '') (one_of ''123456789'')]"

definition format_regex ::
  "unicode_digits \<Rightarrow> ustring \<Rightarrow> ((ustring \<times> ustring \<times> ustring) \<times> ustring) list" where
  \<comment> \<open>the matches of the whole expression: the three groups and the unconverted rest\<close>
  "format_regex ucd s =
     [((y, m, d), r5).
        (y, r1) \<leftarrow> re_Y ucd s, (h1, r2) \<leftarrow> one_of ''-'' r1,
        (m, r3) \<leftarrow> re_m r2, (h2, r4) \<leftarrow> one_of ''-'' r3,
        (d, r5) \<leftarrow> re_d ucd r4]"

definition int_of_string :: "unicode_digits \<Rightarrow> ustring \<Rightarrow> int" where
  \<comment> \<open>\<open>int(text)\<close> on the text of a group: decimal digits, after a blank in the case of
      the day\<close>
  "int_of_string ucd s =
     foldl (\<lambda>n c. 10 * n + int (case decimal ucd c of None \<Rightarrow> 0 | Some v \<Rightarrow> v)) 0
       (dropWhile (\<lambda>c. c = of_char CHR '' '') s)"

definition new_date :: "int \<Rightarrow> int \<Rightarrow> int \<Rightarrow> error + date" where
  \<comment> \<open>the constructor \<open>date(y, m, d)\<close> with its check of the fields\<close>
  "new_date y m d =
     (if MINYEAR \<le> y \<and> y \<le> MAXYEAR then
        if 1 \<le> m \<and> m \<le> 12 then
          if 1 \<le> d \<and> d \<le> days_in_month y m
          then Inr \<lparr>year = y, month = m, day = d\<rparr>
          else Inl ValueError
        else Inl ValueError
      else Inl ValueError)"

definition strptime :: "unicode_digits \<Rightarrow> ustring \<Rightarrow> error + date" where
  \<comment> \<open>\<open>dt.datetime.strptime(s, '%Y-%m-%d').date()\<close>\<close>
  "strptime ucd s =
     (case format_regex ucd s of
        [] \<Rightarrow> Inl ValueError
      | ((y, m, d), rest) # _ \<Rightarrow>
          if rest \<noteq> [] then Inl ValueError
          else new_date (int_of_string ucd y) (int_of_string ucd m) (int_of_string ucd d))"

definition digit_char :: "nat \<Rightarrow> nat" where
  \<comment> \<open>the ASCII digit of a number below ten\<close>
  "digit_char k = of_char CHR ''0'' + k"

fun str_nat :: "nat \<Rightarrow> ustring" where
  \<comment> \<open>the decimal digits of a number\<close>
  "str_nat n =
     (if n < 10 then [digit_char n]
      else str_nat (n div 10) @ [digit_char (n mod 10)])"

declare str_nat.simps [simp del]

definition format_0d :: "nat \<Rightarrow> int \<Rightarrow> ustring" where
  \<comment> \<open>the conversion \<^verbatim>\<open>%0wd\<close>\<close>
  "format_0d w n =
     (if n < 0
      then ustr ''-'' @ replicate (w - 1 - length (str_nat (nat (- n)))) (of_char CHR ''0'') @
           str_nat (nat (- n))
      else replicate (w - length (str_nat (nat n))) (of_char CHR ''0'') @ str_nat (nat n))"

definition isoformat :: "date \<Rightarrow> ustring" where
  \<comment> \<open>\<open>date.isoformat()\<close>, which is also \<open>str(date)\<close>\<close>
  "isoformat dt =
     format_0d 4 (year dt) @ ustr ''-'' @ format_0d 2 (month dt) @ ustr ''-'' @
     format_0d 2 (day dt)"

definition get_date_from_string :: "unicode_digits \<Rightarrow> ustring \<Rightarrow> error + date" where
  \<comment> \<open>model/keras_models/utils.py: the \<open>ValueError\<close> becomes \<open>InvalidDateError(date)\<close>\<close>
  "get_date_from_string ucd date =
     (case strptime ucd date of
        Inl ValueError \<Rightarrow> Inl (InvalidDateError date)
      | Inl e \<Rightarrow> Inl e
      | Inr d \<Rightarrow> Inr d)"

definition utils_get_date_from_string :: "unicode_digits \<Rightarrow> ustring \<Rightarrow> error + date" where
  \<comment> \<open>utils/utils.py: the \<open>ValueError\<close> of \<open>strptime\<close> is not caught\<close>
  "utils_get_date_from_string ucd date = strptime ucd date"

section \<open>The prediction date of a request\<close>

text \<open>
  \<open>get_prediction_date\<close> reads the system clock (\<open>dt.datetime.now().date()\<close>) when no
  date is given. The clock is not an argument of the Python function: it belongs to the
  machine the call runs on, the \<open>world\<close> of the model. The data frame is modelled by the
  dates of its index, in order; \<open>df.index[0]\<close> and \<open>df.index[-1]\<close> raise \<open>IndexError\<close>
  on an empty frame.
\<close>

datatype world = World (now_date: int)

type_synonym data_frame = "int list"

definition index_first :: "data_frame \<Rightarrow> error + int" where
  "index_first df = (case df of [] \<Rightarrow> Inl IndexError | x # _ \<Rightarrow> Inr x)"

definition index_last :: "data_frame \<Rightarrow> error + int" where
  "index_last df = (case df of [] \<Rightarrow> Inl IndexError | _ # _ \<Rightarrow> Inr (last df))"

definition get_prediction_date ::
  "unicode_digits \<Rightarrow> world \<Rightarrow> data_frame \<Rightarrow> int \<Rightarrow> ustring option \<Rightarrow> error + int" where
  \<comment> \<open>model/keras_models/utils.py\<close>
  "get_prediction_date ucd w df seq_len date =
     (case (case date of
              None \<Rightarrow> Inr (now_date w)
            | Some s \<Rightarrow>
                (case get_date_from_string ucd s of Inl e \<Rightarrow> Inl e | Inr d \<Rightarrow> Inr (toordinal d)))
      of
        Inl e \<Rightarrow> Inl e
      | Inr pred_date \<Rightarrow>
          (case index_first df of
             Inl e \<Rightarrow> Inl e
           | Inr df_first_date \<Rightarrow>
               (case index_last df of
                  Inl e \<Rightarrow> Inl e
                | Inr df_last_date \<Rightarrow>
                    get_correct_pred_date pred_date df_first_date df_last_date seq_len)))"

definition utils_get_prediction_date ::
  "unicode_digits \<Rightarrow> world \<Rightarrow> data_frame \<Rightarrow> ustring option \<Rightarrow> error + int" where
  \<comment> \<open>utils/utils.py\<close>
  "utils_get_prediction_date ucd w df date =
     (case (case date of
              None \<Rightarrow> Inr (now_date w)
            | Some s \<Rightarrow>
                (case utils_get_date_from_string ucd s of
                   Inl e \<Rightarrow> Inl e
                 | Inr d \<Rightarrow> Inr (toordinal d)))
      of
        Inl e \<Rightarrow> Inl e
      | Inr pred_date \<Rightarrow>
          (case index_last df of
             Inl e \<Rightarrow> Inl e
           | Inr df_last_date \<Rightarrow> utils_get_correct_pred_date pred_date df_last_date))"

text \<open>
  \<open>KerasModel.predict\<close> and \<open>KerasModel._predict\<close> of model/keras_model/keras_model.py, as
  far as the date goes: the predicted price and the loading of the model are left out.
  The module imports \<open>utils.utils\<close> as \<open>ut\<close>, which is utils/utils.py, whose
  \<open>get_prediction_date\<close> has the two parameters \<open>df\<close> and \<open>date\<close>. \<open>_predict\<close> calls it
  with three positional arguments, the data, the sequence length and the date: the call
  raises \<open>TypeError\<close> before the function is entered, whatever the arguments are. So
  \<open>predict\<close> never reaches the lines that compare the date it gets back with the date it
  was given and print the notice, whose text ends with the fixed label \<open>(Monday)\<close>; they
  are modelled all the same, the notice by the three values printed in it.
\<close>

definition private_predict ::
  "unicode_digits \<Rightarrow> world \<Rightarrow> data_frame \<Rightarrow> int \<Rightarrow> ustring option \<Rightarrow> error + int" where
  \<comment> \<open>\<open>_predict\<close>: \<open>ut.get_prediction_date(df, self.seq_len, date)\<close> is a call with one
      argument too many\<close>
  "private_predict ucd w df seq_len date = Inl TypeError"

definition weekday_name :: "int \<Rightarrow> string" where
  \<comment> \<open>\<open>strftime('%A')\<close>\<close>
  "weekday_name d =
     [''Monday'', ''Tuesday'', ''Wednesday'', ''Thursday'', ''Friday'', ''Saturday'', ''Sunday'']
       ! nat (weekday d)"

record notice =
  date_given :: date
  name_given :: string
  actual_prediction :: int

definition predict ::
  "unicode_digits \<Rightarrow> world \<Rightarrow> data_frame \<Rightarrow> int \<Rightarrow> ustring option \<Rightarrow>
     error + (int \<times> notice option)" where
  "predict ucd w df seq_len date =
     (case private_predict ucd w df seq_len date of
        Inl e \<Rightarrow> Inl e
      | Inr pred_date \<Rightarrow>
          (case date of
             None \<Rightarrow> Inr (pred_date, None)
           | Some s \<Rightarrow>
               (case utils_get_date_from_string ucd s of
                  Inl e \<Rightarrow> Inl e
                | Inr d \<Rightarrow>
                    if pred_date \<noteq> toordinal d
                    then Inr (pred_date,
                              Some \<lparr>date_given = d, name_given = weekday_name (toordinal d),
                                    actual_prediction = pred_date\<rparr>)
                    else Inr (pred_date, None))))"

section \<open>Date strings\<close>

text \<open>
  The strings the claims speak of. A valid \<open>YYYY-MM-DD\<close> string is ten characters long:
  four ASCII digits, a hyphen, two ASCII digits, a hyphen, two ASCII digits, which name a
  date of the calendar (year 1 to 9999, a month, a day that the month has). The accepted
  forms of a date are the strings that \<open>strptime\<close> will be shown to accept for it. The
  year is four decimal digits of any script. The month is written in two ASCII digits or
  without its leading zero. The day is written in two ASCII digits, without its leading
  zero, with a blank in the place of the zero, or, from 10 to 29, as the ASCII digit 1 or
  2 and a decimal digit of any script.
\<close>

definition valid_date :: "date \<Rightarrow> bool" where
  "valid_date d =
     (MINYEAR \<le> year d \<and> year d \<le> MAXYEAR \<and> 1 \<le> month d \<and> month d \<le> 12 \<and>
      1 \<le> day d \<and> day d \<le> days_in_month (year d) (month d))"

definition is_digit :: "nat \<Rightarrow> bool" where
  "is_digit c = (of_char CHR ''0'' \<le> c \<and> c \<le> of_char CHR ''9'')"

definition digit_value :: "nat \<Rightarrow> int" where
  "digit_value c = int c - 48"

fun valid_iso_string :: "ustring \<Rightarrow> bool" where
  "valid_iso_string [y1, y2, y3, y4, h1, m1, m2, h2, d1, d2] =
     (is_digit y1 \<and> is_digit y2 \<and> is_digit y3 \<and> is_digit y4 \<and> h1 = of_char CHR ''-'' \<and>
      is_digit m1 \<and> is_digit m2 \<and> h2 = of_char CHR ''-'' \<and> is_digit d1 \<and> is_digit d2 \<and>
      valid_date
        \<lparr>year = 1000 * digit_value y1 + 100 * digit_value y2 + 10 * digit_value y3 + digit_value y4,
         month = 10 * digit_value m1 + digit_value m2,
         day = 10 * digit_value d1 + digit_value d2\<rparr>)"
| "valid_iso_string _ = False"

definition year_field :: "unicode_digits \<Rightarrow> int \<Rightarrow> ustring \<Rightarrow> bool" where
  "year_field ucd n y =
     (length y = 4 \<and> list_all (\<lambda>c. decimal ucd c \<noteq> None) y \<and> int_of_string ucd y = n)"

definition month_field :: "int \<Rightarrow> ustring \<Rightarrow> bool" where
  "month_field n m = (m = format_0d 2 n \<or> m = format_0d 1 n)"

definition day_field :: "unicode_digits \<Rightarrow> int \<Rightarrow> ustring \<Rightarrow> bool" where
  "day_field ucd n dd =
     (dd = format_0d 2 n \<or> dd = format_0d 1 n \<or>
      n < 10 \<and> dd = ustr '' '' @ format_0d 1 n \<or>
      length dd = 2 \<and> hd dd \<in> set (ustr ''12'') \<and> decimal ucd (last dd) \<noteq> None \<and>
        int_of_string ucd dd = n)"

definition accepted_form :: "unicode_digits \<Rightarrow> date \<Rightarrow> ustring \<Rightarrow> bool" where
  "accepted_form ucd d s =
     (\<exists>y m dd. s = y @ ustr ''-'' @ m @ ustr ''-'' @ dd \<and>
        year_field ucd (year d) y \<and> month_field (month d) m \<and> day_field ucd (day d) dd)"

section \<open>The resolvers, case by case\<close>

lemma weekday_MAXORDINAL: "weekday MAXORDINAL = 4"
  by (simp add: weekday_def MAXORDINAL_def)

lemma MAXORDINAL_bounds: "0 < MAXORDINAL" "MAXORDINAL < 999999999"
  by (simp_all add: MAXORDINAL_def)

lemma saturday_plus_2: "weekday d = 5 \<Longrightarrow> d \<le> MAXORDINAL \<Longrightarrow> d + 2 \<le> MAXORDINAL"
  unfolding weekday_def MAXORDINAL_def by presburger

lemma sunday_plus_1: "weekday d = 6 \<Longrightarrow> d \<le> MAXORDINAL \<Longrightarrow> d + 1 \<le> MAXORDINAL"
  unfolding weekday_def MAXORDINAL_def by presburger

lemma friday_plus_3:
  "weekday d = 4 \<Longrightarrow> d \<le> MAXORDINAL \<Longrightarrow> d \<noteq> MAXORDINAL \<Longrightarrow> d + 3 \<le> MAXORDINAL"
  unfolding weekday_def MAXORDINAL_def by presburger

lemma timedelta_in_range:
  "0 < d \<Longrightarrow> d \<le> MAXORDINAL \<Longrightarrow> 0 < d + n \<Longrightarrow> d + n \<le> MAXORDINAL \<Longrightarrow> timedelta n = Inr n"
  using MAXORDINAL_bounds by (simp add: timedelta_def)

lemma timedelta_overflow:
  "0 < d \<Longrightarrow> d \<le> MAXORDINAL \<Longrightarrow> timedelta n = Inl e \<Longrightarrow> d + n \<le> 0 \<or> MAXORDINAL < d + n"
  using MAXORDINAL_bounds by (auto simp add: timedelta_def split: if_splits)

lemma timedelta_cases: "timedelta n = Inr n \<or> timedelta n = Inl OverflowError"
  by (simp add: timedelta_def)

lemma date_add_eq:
  "date_add d n = (if 0 < d + n \<and> d + n \<le> MAXORDINAL then Inr (d + n) else Inl OverflowError)"
  by (simp add: date_add_def Let_def)

lemma snap_in_range:
  assumes "0 < pred" "pred \<le> MAXORDINAL"
  shows "(if weekday pred = 5 then date_add pred 2
          else if weekday pred = 6 then date_add pred 1 else Inr pred) =
         Inr (if weekday pred = 5 then pred + 2 else if weekday pred = 6 then pred + 1 else pred)"
  using assms saturday_plus_2 [of pred] sunday_plus_1 [of pred] by (simp add: date_add_eq)

lemma date_add_ok: "0 < d + n \<Longrightarrow> d + n \<le> MAXORDINAL \<Longrightarrow> date_add d n = Inr (d + n)"
  by (simp add: date_add_eq)

lemma date_add_low: "d + n \<le> 0 \<Longrightarrow> date_add d n = Inl OverflowError"
  by (simp add: date_add_eq)

lemma date_add_high: "MAXORDINAL < d + n \<Longrightarrow> date_add d n = Inl OverflowError"
  by (simp add: date_add_eq)

lemma keras_lower_overflow:
  assumes "0 < fst_d" "fst_d \<le> MAXORDINAL" "fst_d + n \<le> 0 \<or> MAXORDINAL < fst_d + n"
  shows "get_correct_pred_date pred fst_d lst n = Inl OverflowError"
proof -
  have "date_add fst_d n = Inl OverflowError"
    using assms(3) date_add_low date_add_high by blast
  then show ?thesis
    using timedelta_cases [of n] by (auto simp add: get_correct_pred_date_def)
qed

lemma keras_lower_fails:
  assumes "0 < fst_d" "fst_d \<le> MAXORDINAL" "0 < fst_d + n" "fst_d + n \<le> MAXORDINAL"
    "pred < fst_d + n"
  shows "get_correct_pred_date pred fst_d lst n =
         Inl (InvalidPredictionDateError (LowerMsg fst_d n (fst_d + n) pred))"
proof -
  have td: "timedelta n = Inr n"
    using assms timedelta_in_range by blast
  have da: "date_add fst_d n = Inr (fst_d + n)"
    using assms date_add_ok by blast
  show ?thesis
    using assms(5) by (simp add: get_correct_pred_date_def InvalidPredictionDateError_init_def td da)
qed

lemma keras_lower_passes:
  assumes "0 < fst_d" "fst_d \<le> MAXORDINAL" "0 < fst_d + n" "fst_d + n \<le> pred"
    "pred \<le> MAXORDINAL"
  shows "get_correct_pred_date pred fst_d lst n =
     (case
        (if weekday lst = 4 then
           (case date_add lst 3 of
              Inl e \<Rightarrow> Some e
            | Inr monday \<Rightarrow>
                if pred > monday
                then Some (InvalidPredictionDateError_init pred lst n False)
                else None)
         else
           (case date_sub pred 1 of
              Inl e \<Rightarrow> Some e
            | Inr day_before \<Rightarrow>
                if lst < day_before
                then Some (InvalidPredictionDateError_init pred lst n False)
                else None))
      of
        Some e \<Rightarrow> Inl e
      | None \<Rightarrow>
          Inr (if weekday pred = 5 then pred + 2 else if weekday pred = 6 then pred + 1 else pred))"
proof -
  have le: "fst_d + n \<le> MAXORDINAL"
    using assms by linarith
  have td: "timedelta n = Inr n"
    using assms le timedelta_in_range by blast
  have da: "date_add fst_d n = Inr (fst_d + n)"
    using assms le date_add_ok by blast
  have pos: "0 < pred"
    using assms by linarith
  have nlt: "\<not> pred < fst_d + n"
    using assms by linarith
  have sat: "date_add pred 2 = Inr (pred + 2)" if "weekday pred = 5"
    using that pos assms(5) saturday_plus_2 [of pred] by (simp add: date_add_ok)
  have sun: "date_add pred 1 = Inr (pred + 1)" if "weekday pred = 6"
    using that pos assms(5) sunday_plus_1 [of pred] by (simp add: date_add_ok)
  show ?thesis
    using nlt
    by (simp add: get_correct_pred_date_def td da sat sun cong del: option.case_cong_weak)
qed

lemma keras_resolver_cases:
  assumes "0 < pred" "pred \<le> MAXORDINAL" "0 < fst_d" "fst_d \<le> MAXORDINAL"
    "0 < lst" "lst \<le> MAXORDINAL"
  shows "get_correct_pred_date pred fst_d lst n =
    (if fst_d + n \<le> 0 then Inl OverflowError
     else if MAXORDINAL < fst_d + n then Inl OverflowError
     else if pred < fst_d + n then Inl (InvalidPredictionDateError (LowerMsg fst_d n (fst_d + n) pred))
     else if weekday lst = 4 then
       (if lst = MAXORDINAL then Inl OverflowError
        else if lst + 3 < pred then Inl (InvalidPredictionDateError (UpperMsg lst (lst + 1) pred))
        else Inr (if weekday pred = 5 then pred + 2 else if weekday pred = 6 then pred + 1 else pred))
     else
       (if pred = 1 then Inl OverflowError
        else if lst + 1 < pred then Inl (InvalidPredictionDateError (UpperMsg lst (lst + 1) pred))
        else Inr (if weekday pred = 5 then pred + 2 else if weekday pred = 6 then pred + 1 else pred)))"
proof -
  consider (ovf) "fst_d + n \<le> 0 \<or> MAXORDINAL < fst_d + n"
    | (early) "0 < fst_d + n" "fst_d + n \<le> MAXORDINAL" "pred < fst_d + n"
    | (pass) "0 < fst_d + n" "fst_d + n \<le> pred"
    by linarith
  then show ?thesis
  proof cases
    case ovf
    then show ?thesis
      using keras_lower_overflow [OF assms(3,4) ovf] by auto
  next
    case early
    then show ?thesis
      using keras_lower_fails [OF assms(3,4) early] by simp
  next
    case pass
    have le: "fst_d + n \<le> MAXORDINAL" "\<not> pred < fst_d + n" "\<not> fst_d + n \<le> 0"
      using pass assms by linarith+
    note K = keras_lower_passes [OF assms(3,4) pass assms(2), of lst]
    have l1: "date_add lst 1 = Inr (lst + 1)" if "lst \<noteq> MAXORDINAL"
      using that assms by (simp add: date_add_ok)
    show ?thesis
    proof (cases "weekday lst = 4")
      case fri: True
      show ?thesis
      proof (cases "lst = MAXORDINAL")
        case True
        then have "date_add lst 3 = Inl OverflowError"
          by (simp add: date_add_high)
        then show ?thesis
          using K fri True le by simp
      next
        case False
        then have "lst + 3 \<le> MAXORDINAL"
          using fri assms friday_plus_3 by blast
        then have "date_add lst 3 = Inr (lst + 3)"
          using assms by (simp add: date_add_ok)
        then show ?thesis
          using K fri False le l1 [OF False]
          by (simp add: InvalidPredictionDateError_init_def)
      qed
    next
      case False
      show ?thesis
      proof (cases "pred = 1")
        case True
        then have "date_sub pred 1 = Inl OverflowError"
          by (simp add: date_sub_def date_add_low)
        then show ?thesis
          using K False True le by simp
      next
        case p: False
        then have "date_sub pred 1 = Inr (pred - 1)"
          using assms by (simp add: date_sub_def date_add_ok)
        moreover have "lst \<noteq> MAXORDINAL"
          using False weekday_MAXORDINAL by auto
        ultimately show ?thesis
          using K False p le l1
          by (auto simp add: InvalidPredictionDateError_init_def)
      qed
    qed
  qed
qed

lemma utils_resolver_cases:
  assumes "0 < pred" "pred \<le> MAXORDINAL" "0 < lst" "lst \<le> MAXORDINAL"
  shows "utils_get_correct_pred_date pred lst =
    (if weekday lst = 4 then
       (if lst = MAXORDINAL then Inl OverflowError
        else if pred = lst + 1 \<or> pred = lst + 2 then Inr (lst + 3)
        else if lst + 3 < pred then Inl (utils_InvalidPredictionDateError (UpperMsg lst (lst + 1) pred))
        else Inr pred)
     else
       (if pred = 1 then Inl OverflowError
        else if lst + 1 < pred then Inl (utils_InvalidPredictionDateError (UpperMsg lst (lst + 1) pred))
        else Inr pred))"
proof (cases "weekday lst = 4")
  case fri: True
  show ?thesis
  proof (cases "lst = MAXORDINAL")
    case True
    then have "date_add lst 1 = Inl OverflowError"
      by (simp add: date_add_high)
    then show ?thesis
      using fri True by (simp add: utils_get_correct_pred_date_def)
  next
    case False
    then have m: "lst + 3 \<le> MAXORDINAL"
      using fri assms friday_plus_3 by blast
    have a: "date_add lst 1 = Inr (lst + 1)" "date_add lst 2 = Inr (lst + 2)"
      "date_add lst 3 = Inr (lst + 3)" "date_add (lst + 1) 2 = Inr (lst + 3)"
      "date_add (lst + 2) 1 = Inr (lst + 3)"
      using m assms by (simp_all add: date_add_ok)
    show ?thesis
      using fri False
      by (simp add: utils_get_correct_pred_date_def a utils_InvalidPredictionDateError_init_def)
  qed
next
  case False
  show ?thesis
  proof (cases "pred = 1")
    case True
    then have "date_sub pred 1 = Inl OverflowError"
      by (simp add: date_sub_def date_add_low)
    then show ?thesis
      using False True by (simp add: utils_get_correct_pred_date_def)
  next
    case p: False
    then have "date_sub pred 1 = Inr (pred - 1)"
      using assms by (simp add: date_sub_def date_add_ok)
    moreover have "lst \<noteq> MAXORDINAL"
      using False weekday_MAXORDINAL by auto
    then have "date_add lst 1 = Inr (lst + 1)"
      using assms by (simp add: date_add_ok)
    ultimately show ?thesis
      using False p
      by (auto simp add: utils_get_correct_pred_date_def utils_InvalidPredictionDateError_init_def)
  qed
qed

lemma keras_resolver_result:
  assumes "get_correct_pred_date pred fst_d lst n = Inr r"
  shows "r = (if weekday pred = 5 then pred + 2 else if weekday pred = 6 then pred + 1 else pred)"
  using assms
  by (auto simp add: get_correct_pred_date_def date_add_eq
      split: sum.splits option.splits if_splits)

lemma utils_resolver_result:
  assumes "utils_get_correct_pred_date pred lst = Inr r"
  shows "r = (if weekday lst = 4 \<and> (pred = lst + 1 \<or> pred = lst + 2) then lst + 3 else pred)"
  using assms
  by (auto simp add: utils_get_correct_pred_date_def date_add_eq date_sub_def
      split: sum.splits option.splits if_splits)

lemma weekday_shift:
  "weekday d = 5 \<Longrightarrow> weekday (d + 2) = 0"
  "weekday d = 6 \<Longrightarrow> weekday (d + 1) = 0"
  "weekday d = 4 \<Longrightarrow> weekday (d + 3) = 0"
  "weekday d = 4 \<Longrightarrow> weekday (d + 1) = 5"
  "weekday d = 4 \<Longrightarrow> weekday (d + 2) = 6"
  unfolding weekday_def by presburger+

lemma weekday_range: "0 \<le> weekday d" "weekday d < 7"
  unfolding weekday_def by simp_all

lemma ymd2ord_2024:
  "ymd2ord 2024 1 1 = 738886" "ymd2ord 2024 1 5 = 738890" "ymd2ord 2024 1 6 = 738891"
  "ymd2ord 2024 1 7 = 738892" "ymd2ord 2024 1 8 = 738893" "ymd2ord 2024 1 9 = 738894"
  "ymd2ord 2024 1 10 = 738895" "ymd2ord 2024 1 11 = 738896" "ymd2ord 2023 1 2 = 738522"
  by (simp_all add: ymd2ord_def days_before_year_def days_before_month_def
      DAYS_BEFORE_MONTH_def is_leap_def)

section \<open>Claims about the resolvers\<close>

text \<open>
  C9. The two implementations of the resolver are inconsistent: there are a prediction
  date, a first and a last date of the data and a sequence length on which neither fails
  (the lower bound of the first does not fire) and the two return different dates. The
  instance of the proof is the Saturday 2024-01-06 with data from 2023-01-02 to the
  Wednesday 2024-01-10 and sequence length 60: model/keras_models/utils.py returns the
  Monday 2024-01-08, utils/utils.py the Saturday itself.
\<close>

theorem C9_resolvers_disagree:
  "\<exists>pred_date df_first_date df_last_date seq_len r r'.
     get_correct_pred_date pred_date df_first_date df_last_date seq_len = Inr r \<and>
     utils_get_correct_pred_date pred_date df_last_date = Inr r' \<and> r \<noteq> r'"
proof -
  have "get_correct_pred_date 738891 738522 738895 60 = Inr 738893"
    by (simp add: keras_resolver_cases MAXORDINAL_def weekday_def)
  moreover have "utils_get_correct_pred_date 738891 738895 = Inr 738891"
    by (simp add: utils_resolver_cases MAXORDINAL_def weekday_def)
  moreover have "(738893::int) \<noteq> 738891"
    by simp
  ultimately show ?thesis
    by blast
qed

text \<open>
  C1, as stated, fails on utils/utils.py: with data up to the Wednesday 2024-01-10 the
  Saturday 2024-01-06 passes the upper bound and is returned as it is, not the Monday.
\<close>

theorem C1_counterexample:
  "utils_get_correct_pred_date (ymd2ord 2024 1 6) (ymd2ord 2024 1 10) = Inr (ymd2ord 2024 1 6) \<and>
   weekday (ymd2ord 2024 1 6) = 5"
  by (simp add: ymd2ord_2024 utils_resolver_cases MAXORDINAL_def weekday_def)

text \<open>
  C1, amended. For valid dates and a prediction date that passes the upper bound: with a
  sequence length (model/keras_models/utils.py) every prediction date that also passes
  the lower bound is snapped, a Saturday to the Monday two days later, a Sunday to the
  Monday one day later, a weekday to itself. Without one (utils/utils.py) only the
  Saturday and the Sunday that follow a Friday last date are moved, to the Monday three
  days after that Friday; every other date is returned unchanged.
\<close>

theorem C1_weekend_snap:
  assumes "0 < pred" "pred \<le> MAXORDINAL" "0 < fst_d" "fst_d \<le> MAXORDINAL"
    "0 < lst" "lst \<le> MAXORDINAL"
    and upper: "if weekday lst = 4 then lst < MAXORDINAL \<and> pred \<le> lst + 3
                else 1 < pred \<and> pred \<le> lst + 1"
  shows "(0 < fst_d + n \<and> fst_d + n \<le> pred \<longrightarrow>
           get_correct_pred_date pred fst_d lst n =
             Inr (if weekday pred = 5 then pred + 2
                  else if weekday pred = 6 then pred + 1 else pred)) \<and>
         (weekday pred = 5 \<longrightarrow> weekday (pred + 2) = 0) \<and>
         (weekday pred = 6 \<longrightarrow> weekday (pred + 1) = 0) \<and>
         utils_get_correct_pred_date pred lst =
           Inr (if weekday lst = 4 \<and> (pred = lst + 1 \<or> pred = lst + 2) then lst + 3 else pred)"
proof -
  have k: "get_correct_pred_date pred fst_d lst n =
             Inr (if weekday pred = 5 then pred + 2
                  else if weekday pred = 6 then pred + 1 else pred)"
    if "0 < fst_d + n" "fst_d + n \<le> pred"
    using that upper assms(2) weekday_MAXORDINAL
    by (auto simp add: keras_resolver_cases [OF assms(1-6)] split: if_splits)
  have u: "utils_get_correct_pred_date pred lst =
           Inr (if weekday lst = 4 \<and> (pred = lst + 1 \<or> pred = lst + 2) then lst + 3 else pred)"
    using upper weekday_MAXORDINAL
    by (auto simp add: utils_resolver_cases [OF assms(1,2,5,6)] split: if_splits)
  show ?thesis
    using k u weekday_shift(1,2) by blast
qed

text \<open>
  The instance of the claim: last date Friday 2024-01-05, prediction date Saturday
  2024-01-06; both resolvers return Monday 2024-01-08, which is not the date requested.
\<close>

theorem C1_witness:
  "get_correct_pred_date (ymd2ord 2024 1 6) (ymd2ord 2023 1 2) (ymd2ord 2024 1 5) 60 =
     Inr (ymd2ord 2024 1 8) \<and>
   utils_get_correct_pred_date (ymd2ord 2024 1 6) (ymd2ord 2024 1 5) = Inr (ymd2ord 2024 1 8) \<and>
   weekday (ymd2ord 2024 1 5) = 4 \<and> weekday (ymd2ord 2024 1 6) = 5 \<and>
   weekday (ymd2ord 2024 1 8) = 0 \<and> ymd2ord 2024 1 8 \<noteq> ymd2ord 2024 1 6"
  using C1_weekend_snap [of 738891 738522 738890 60]
  by (simp add: ymd2ord_2024 MAXORDINAL_def weekday_def)

text \<open>
  C8, as stated, fails on utils/utils.py: with data up to the Tuesday 2024-01-09 the
  Sunday 2024-01-07 is resolved to itself, so a successful resolution returns a date
  that is not a weekday.
\<close>

theorem C8_counterexample:
  "utils_get_correct_pred_date (ymd2ord 2024 1 7) (ymd2ord 2024 1 9) = Inr (ymd2ord 2024 1 7) \<and>
   weekday (ymd2ord 2024 1 7) = 6"
  by (simp add: ymd2ord_2024 utils_resolver_cases MAXORDINAL_def weekday_def)

text \<open>
  C8, amended. In model/keras_models/utils.py every date a successful resolution returns
  is a weekday (Monday to Friday); a weekday prediction date is returned as it is;
  snapping the result once more changes nothing, and resolving the result again, against
  any data, returns it unchanged. In utils/utils.py a weekday prediction date is
  returned as it is too, and a date that was changed is a Monday, but a weekend date can
  be returned unchanged.
\<close>

theorem C8_snap_idempotent:
  "(get_correct_pred_date pred fst_d lst n = Inr r \<longrightarrow>
      0 \<le> weekday r \<and> weekday r < 5 \<and>
      (weekday pred < 5 \<longrightarrow> r = pred) \<and>
      (if weekday r = 5 then r + 2 else if weekday r = 6 then r + 1 else r) = r \<and>
      (\<forall>fst_d' lst' n' r'. get_correct_pred_date r fst_d' lst' n' = Inr r' \<longrightarrow> r' = r)) \<and>
   (utils_get_correct_pred_date pred lst = Inr r \<longrightarrow>
      (weekday pred < 5 \<longrightarrow> r = pred) \<and> (r \<noteq> pred \<longrightarrow> weekday r = 0))"
proof -
  have wd: "0 \<le> weekday r \<and> weekday r < 5"
    if "get_correct_pred_date pred fst_d lst n = Inr r"
  proof -
    have r: "r = (if weekday pred = 5 then pred + 2 else if weekday pred = 6 then pred + 1 else pred)"
      using that by (rule keras_resolver_result)
    have "weekday pred = 5 \<or> weekday pred = 6 \<or> weekday pred < 5"
      using weekday_range(2) [of pred] by linarith
    then show ?thesis
      using r weekday_shift(1,2) [of pred] weekday_range(1) [of pred] by auto
  qed
  have k: "0 \<le> weekday r \<and> weekday r < 5 \<and>
      (weekday pred < 5 \<longrightarrow> r = pred) \<and>
      (if weekday r = 5 then r + 2 else if weekday r = 6 then r + 1 else r) = r \<and>
      (\<forall>fst_d' lst' n' r'. get_correct_pred_date r fst_d' lst' n' = Inr r' \<longrightarrow> r' = r)"
    if h: "get_correct_pred_date pred fst_d lst n = Inr r"
  proof -
    have again: "r' = r" if "get_correct_pred_date r fst_d' lst' n' = Inr r'" for fst_d' lst' n' r'
      using keras_resolver_result [OF that] wd [OF h] by simp
    show ?thesis
      using wd [OF h] keras_resolver_result [OF h] again by auto
  qed
  have u: "(weekday pred < 5 \<longrightarrow> r = pred) \<and> (r \<noteq> pred \<longrightarrow> weekday r = 0)"
    if h: "utils_get_correct_pred_date pred lst = Inr r"
    using utils_resolver_result [OF h] weekday_shift(3,4,5) [of lst]
    by (auto split: if_splits)
  show ?thesis
    using k u by blast
qed

text \<open>
  An instance: the Sunday 2024-01-07 with data up to Tuesday 2024-01-09 becomes Monday
  2024-01-08, and that Monday resolves to itself.
\<close>

theorem C8_witness:
  "get_correct_pred_date (ymd2ord 2024 1 7) (ymd2ord 2023 1 2) (ymd2ord 2024 1 9) 60 =
     Inr (ymd2ord 2024 1 8) \<and>
   weekday (ymd2ord 2024 1 7) = 6 \<and> weekday (ymd2ord 2024 1 8) = 0 \<and>
   get_correct_pred_date (ymd2ord 2024 1 8) (ymd2ord 2023 1 2) (ymd2ord 2024 1 9) 60 =
     Inr (ymd2ord 2024 1 8) \<and>
   utils_get_correct_pred_date (ymd2ord 2024 1 9) (ymd2ord 2024 1 9) = Inr (ymd2ord 2024 1 9)"
  using C8_snap_idempotent [of 738892 738522 738894 60 738893]
  by (simp add: ymd2ord_2024 keras_resolver_cases utils_resolver_cases MAXORDINAL_def weekday_def)

text \<open>
  C2. When the last date of the data is a Friday, and the lower bound, where there is
  one, passes, the resolution fails with the upper-bound \<open>InvalidPredictionDateError\<close>
  if and only if the prediction date is more than 3 days after the last date; every
  prediction date up to the following Monday passes. The two parts are stated for both
  resolvers. The second speaks of the following Monday, so the Friday is not the last
  day of the calendar, 9999-12-31, after which there is no date.
\<close>

theorem C2_friday_upper_bound:
  assumes "0 < pred" "pred \<le> MAXORDINAL" "0 < fst_d" "fst_d \<le> MAXORDINAL"
    "0 < lst" "lst \<le> MAXORDINAL"
    and fri: "weekday lst = 4"
  shows "(0 < fst_d + n \<and> fst_d + n \<le> pred \<longrightarrow>
           ((\<exists>till. get_correct_pred_date pred fst_d lst n =
                      Inl (InvalidPredictionDateError (UpperMsg lst till pred)))
              \<longleftrightarrow> lst + 3 < pred) \<and>
           (lst < MAXORDINAL \<and> pred \<le> lst + 3 \<longrightarrow>
              (\<exists>r. get_correct_pred_date pred fst_d lst n = Inr r))) \<and>
         ((\<exists>till. utils_get_correct_pred_date pred lst =
                    Inl (utils_InvalidPredictionDateError (UpperMsg lst till pred)))
            \<longleftrightarrow> lst + 3 < pred) \<and>
         (lst < MAXORDINAL \<and> pred \<le> lst + 3 \<longrightarrow>
            (\<exists>r. utils_get_correct_pred_date pred lst = Inr r))"
proof -
  have far: "lst \<noteq> MAXORDINAL" if "lst + 3 < pred"
    using that assms(2) by linarith
  have k: "((\<exists>till. get_correct_pred_date pred fst_d lst n =
                      Inl (InvalidPredictionDateError (UpperMsg lst till pred)))
              \<longleftrightarrow> lst + 3 < pred) \<and>
           (lst < MAXORDINAL \<and> pred \<le> lst + 3 \<longrightarrow>
              (\<exists>r. get_correct_pred_date pred fst_d lst n = Inr r))"
    if "0 < fst_d + n" "fst_d + n \<le> pred"
    using that fri far assms(2)
    by (auto simp add: keras_resolver_cases [OF assms(1-6)])
  have u: "((\<exists>till. utils_get_correct_pred_date pred lst =
                    Inl (utils_InvalidPredictionDateError (UpperMsg lst till pred)))
            \<longleftrightarrow> lst + 3 < pred) \<and>
         (lst < MAXORDINAL \<and> pred \<le> lst + 3 \<longrightarrow>
            (\<exists>r. utils_get_correct_pred_date pred lst = Inr r))"
    using fri far
    by (auto simp add: utils_resolver_cases [OF assms(1,2,5,6)])
  show ?thesis
    using k u by blast
qed

text \<open>
  The instance of the claim: last date Friday 2024-01-05; Tuesday 2024-01-09 fails in
  both resolvers, Monday 2024-01-08 passes.
\<close>

theorem C2_witness:
  "weekday (ymd2ord 2024 1 5) = 4 \<and>
   get_correct_pred_date (ymd2ord 2024 1 9) (ymd2ord 2023 1 2) (ymd2ord 2024 1 5) 60 =
     Inl (InvalidPredictionDateError
            (UpperMsg (ymd2ord 2024 1 5) (ymd2ord 2024 1 6) (ymd2ord 2024 1 9))) \<and>
   utils_get_correct_pred_date (ymd2ord 2024 1 9) (ymd2ord 2024 1 5) =
     Inl (utils_InvalidPredictionDateError
            (UpperMsg (ymd2ord 2024 1 5) (ymd2ord 2024 1 6) (ymd2ord 2024 1 9))) \<and>
   get_correct_pred_date (ymd2ord 2024 1 8) (ymd2ord 2023 1 2) (ymd2ord 2024 1 5) 60 =
     Inr (ymd2ord 2024 1 8) \<and>
   utils_get_correct_pred_date (ymd2ord 2024 1 8) (ymd2ord 2024 1 5) = Inr (ymd2ord 2024 1 8)"
  using C2_friday_upper_bound [of 738894 738522 738890 60]
  by (simp add: ymd2ord_2024 keras_resolver_cases utils_resolver_cases MAXORDINAL_def weekday_def)

text \<open>
  C3. When the last date of the data is not a Friday, and the lower bound, where there
  is one, passes, the resolution fails with the upper-bound error if and only if the
  prediction date is later than the last date plus one day, and every earlier prediction
  date after 0001-01-01 passes, however far before the last date it lies. A prediction
  date equal to the last date plus one day, or to the Monday three days after a Friday
  last date, always passes. Stated for both resolvers.
\<close>

theorem C3_next_day_upper_bound:
  assumes "0 < pred" "pred \<le> MAXORDINAL" "0 < fst_d" "fst_d \<le> MAXORDINAL"
    "0 < lst" "lst \<le> MAXORDINAL"
  shows "(weekday lst \<noteq> 4 \<longrightarrow>
           (0 < fst_d + n \<and> fst_d + n \<le> pred \<longrightarrow>
              ((\<exists>till. get_correct_pred_date pred fst_d lst n =
                         Inl (InvalidPredictionDateError (UpperMsg lst till pred)))
                 \<longleftrightarrow> lst + 1 < pred) \<and>
              (1 < pred \<and> pred \<le> lst + 1 \<longrightarrow>
                 (\<exists>r. get_correct_pred_date pred fst_d lst n = Inr r))) \<and>
           ((\<exists>till. utils_get_correct_pred_date pred lst =
                      Inl (utils_InvalidPredictionDateError (UpperMsg lst till pred)))
              \<longleftrightarrow> lst + 1 < pred) \<and>
           (1 < pred \<and> pred \<le> lst + 1 \<longrightarrow>
              (\<exists>r. utils_get_correct_pred_date pred lst = Inr r))) \<and>
         (pred = lst + 1 \<or> weekday lst = 4 \<and> pred = lst + 3 \<longrightarrow>
            (0 < fst_d + n \<and> fst_d + n \<le> pred \<longrightarrow>
               (\<exists>r. get_correct_pred_date pred fst_d lst n = Inr r)) \<and>
            (\<exists>r. utils_get_correct_pred_date pred lst = Inr r))"
proof -
  have k1: "((\<exists>till. get_correct_pred_date pred fst_d lst n =
                         Inl (InvalidPredictionDateError (UpperMsg lst till pred)))
                 \<longleftrightarrow> lst + 1 < pred) \<and>
              (1 < pred \<and> pred \<le> lst + 1 \<longrightarrow>
                 (\<exists>r. get_correct_pred_date pred fst_d lst n = Inr r))"
    if "weekday lst \<noteq> 4" "0 < fst_d + n" "fst_d + n \<le> pred"
    using that assms(2,5)
    by (auto simp add: keras_resolver_cases [OF assms(1-6)])
  have u1: "((\<exists>till. utils_get_correct_pred_date pred lst =
                      Inl (utils_InvalidPredictionDateError (UpperMsg lst till pred)))
              \<longleftrightarrow> lst + 1 < pred) \<and>
           (1 < pred \<and> pred \<le> lst + 1 \<longrightarrow>
              (\<exists>r. utils_get_correct_pred_date pred lst = Inr r))"
    if "weekday lst \<noteq> 4"
    using that assms(5)
    by (auto simp add: utils_resolver_cases [OF assms(1,2,5,6)])
  have b: "lst \<noteq> MAXORDINAL \<and> pred \<noteq> 1"
    if "pred = lst + 1 \<or> weekday lst = 4 \<and> pred = lst + 3"
    using that assms(2,5) by linarith
  have k2: "\<exists>r. get_correct_pred_date pred fst_d lst n = Inr r"
    if "pred = lst + 1 \<or> weekday lst = 4 \<and> pred = lst + 3" "0 < fst_d + n" "fst_d + n \<le> pred"
    using that b [OF that(1)] assms(2)
    by (auto simp add: keras_resolver_cases [OF assms(1-6)])
  have u2: "\<exists>r. utils_get_correct_pred_date pred lst = Inr r"
    if "pred = lst + 1 \<or> weekday lst = 4 \<and> pred = lst + 3"
    using that b [OF that(1)]
    by (auto simp add: utils_resolver_cases [OF assms(1,2,5,6)])
  show ?thesis
    using k1 u1 k2 u2 by blast
qed

text \<open>
  An instance: last date Wednesday 2024-01-10, prediction date Thursday 2024-01-11.
\<close>

theorem C3_witness:
  "weekday (ymd2ord 2024 1 10) = 2 \<and>
   get_correct_pred_date (ymd2ord 2024 1 11) (ymd2ord 2023 1 2) (ymd2ord 2024 1 10) 60 =
     Inr (ymd2ord 2024 1 11) \<and>
   utils_get_correct_pred_date (ymd2ord 2024 1 11) (ymd2ord 2024 1 10) = Inr (ymd2ord 2024 1 11)"
  using C3_next_day_upper_bound [of 738896 738522 738895 60]
  by (simp add: ymd2ord_2024 keras_resolver_cases utils_resolver_cases MAXORDINAL_def weekday_def)

lemma index_last_Cons: "df \<noteq> [] \<Longrightarrow> index_last (a # df) = Inr (last df)"
  by (simp add: index_last_def)

lemma utils_get_prediction_date_first:
  assumes "df \<noteq> []"
  shows "utils_get_prediction_date ucd w (a # df) date =
         utils_get_prediction_date ucd w (b # df) date"
  unfolding utils_get_prediction_date_def index_last_Cons [OF assms] ..

text \<open>
  C4. With a sequence length (model/keras_models/utils.py), a prediction date before the
  first date plus the sequence length fails with the lower-bound error, whose message
  carries that earliest date. Without one (utils/utils.py) there is no lower bound: a
  prediction date that satisfies the upper bound passes, the only failures are the
  upper-bound error and the overflow of the calendar, and the first date of the data
  has no influence on the result.
\<close>

theorem C4_lower_bound:
  assumes "0 < pred" "pred \<le> MAXORDINAL" "0 < fst_d" "fst_d \<le> MAXORDINAL"
    "0 < lst" "lst \<le> MAXORDINAL"
  shows "(0 < fst_d + n \<and> fst_d + n \<le> MAXORDINAL \<and> pred < fst_d + n \<longrightarrow>
            get_correct_pred_date pred fst_d lst n =
              Inl (InvalidPredictionDateError (LowerMsg fst_d n (fst_d + n) pred))) \<and>
         ((if weekday lst = 4 then lst < MAXORDINAL \<and> pred \<le> lst + 3
           else 1 < pred \<and> pred \<le> lst + 1) \<longrightarrow>
            (\<exists>r. utils_get_correct_pred_date pred lst = Inr r)) \<and>
         (\<forall>e. utils_get_correct_pred_date pred lst = Inl e \<longrightarrow>
            e = OverflowError \<or> e = utils_InvalidPredictionDateError (UpperMsg lst (lst + 1) pred)) \<and>
         (\<forall>ucd w df a b date. df \<noteq> [] \<longrightarrow>
            utils_get_prediction_date ucd w (a # df) date =
            utils_get_prediction_date ucd w (b # df) date)"
proof -
  have k: "get_correct_pred_date pred fst_d lst n =
              Inl (InvalidPredictionDateError (LowerMsg fst_d n (fst_d + n) pred))"
    if "0 < fst_d + n" "fst_d + n \<le> MAXORDINAL" "pred < fst_d + n"
    using keras_lower_fails [OF assms(3,4) that] .
  have u: "\<exists>r. utils_get_correct_pred_date pred lst = Inr r"
    if "if weekday lst = 4 then lst < MAXORDINAL \<and> pred \<le> lst + 3
        else 1 < pred \<and> pred \<le> lst + 1"
    using that by (auto simp add: utils_resolver_cases [OF assms(1,2,5,6)] split: if_splits)
  have e: "e = OverflowError \<or> e = utils_InvalidPredictionDateError (UpperMsg lst (lst + 1) pred)"
    if "utils_get_correct_pred_date pred lst = Inl e" for e
    using that by (auto simp add: utils_resolver_cases [OF assms(1,2,5,6)] split: if_splits)
  show ?thesis
    using k u e utils_get_prediction_date_first by blast
qed

text \<open>
  The instance of the claim: first date 2024-01-01, sequence length 10, prediction date
  2024-01-08 fails with earliest date 2024-01-11; utils/utils.py accepts the same date.
\<close>

theorem C4_witness:
  "get_correct_pred_date (ymd2ord 2024 1 8) (ymd2ord 2024 1 1) (ymd2ord 2024 1 10) 10 =
     Inl (InvalidPredictionDateError
            (LowerMsg (ymd2ord 2024 1 1) 10 (ymd2ord 2024 1 11) (ymd2ord 2024 1 8))) \<and>
   utils_get_correct_pred_date (ymd2ord 2024 1 8) (ymd2ord 2024 1 10) = Inr (ymd2ord 2024 1 8)"
  using C4_lower_bound [of 738893 738886 738895 10]
  by (simp add: ymd2ord_2024 utils_resolver_cases MAXORDINAL_def weekday_def)

lemma resolver_changes:
  "get_correct_pred_date pred fst_d lst n = Inr r \<Longrightarrow> r \<noteq> pred \<Longrightarrow>
     weekday r = 0 \<and> (weekday pred = 5 \<and> r = pred + 2 \<or> weekday pred = 6 \<and> r = pred + 1)"
  "utils_get_correct_pred_date pred lst = Inr r \<Longrightarrow> r \<noteq> pred \<Longrightarrow>
     weekday r = 0 \<and> (weekday pred = 5 \<and> r = pred + 2 \<or> weekday pred = 6 \<and> r = pred + 1)"
proof -
  assume "get_correct_pred_date pred fst_d lst n = Inr r" "r \<noteq> pred"
  then show "weekday r = 0 \<and>
      (weekday pred = 5 \<and> r = pred + 2 \<or> weekday pred = 6 \<and> r = pred + 1)"
    using keras_resolver_result [of pred fst_d lst n r] weekday_shift(1,2) [of pred]
    by (auto split: if_splits)
next
  assume h: "utils_get_correct_pred_date pred lst = Inr r" "r \<noteq> pred"
  from utils_resolver_result [OF h(1)] h(2)
  have f: "weekday lst = 4" "pred = lst + 1 \<or> pred = lst + 2" "r = lst + 3"
    by (auto split: if_splits)
  show "weekday r = 0 \<and>
      (weekday pred = 5 \<and> r = pred + 2 \<or> weekday pred = 6 \<and> r = pred + 1)"
    using f weekday_shift(3,4,5) [OF f(1)] by auto
qed

lemma get_prediction_date_Some:
  assumes "get_prediction_date ucd w df n (Some s) = Inr p"
  shows "\<exists>d fst_d lst. get_date_from_string ucd s = Inr d \<and>
           get_correct_pred_date (toordinal d) fst_d lst n = Inr p"
  using assms by (auto simp add: get_prediction_date_def split: sum.splits)

lemma utils_get_prediction_date_Some:
  assumes "utils_get_prediction_date ucd w df (Some s) = Inr p"
  shows "\<exists>d lst. utils_get_date_from_string ucd s = Inr d \<and>
           utils_get_correct_pred_date (toordinal d) lst = Inr p"
  using assms by (auto simp add: utils_get_prediction_date_def split: sum.splits)

text \<open>
  C10. Whenever a resolution succeeds with a date other than the date asked for, the
  date asked for is a Saturday or a Sunday and the date returned is the Monday right
  after it, two days or one day later. This holds of the resolver with the sequence
  length (model/keras_models/utils.py), of the resolver of utils/utils.py, which is the
  module that keras_model.py imports, and of the two \<open>get_prediction_date\<close> functions
  when they are given a date string. So the label \<open>(Monday)\<close> of the notice can never be
  wrong. \<open>predict\<close> itself, as it is written, does not get as far as the notice: every
  call ends with the \<open>TypeError\<close> of \<open>_predict\<close>.
\<close>

theorem C10_notice_monday:
  "(get_correct_pred_date pred fst_d lst n = Inr r \<and> r \<noteq> pred \<longrightarrow>
      weekday r = 0 \<and> (weekday pred = 5 \<and> r = pred + 2 \<or> weekday pred = 6 \<and> r = pred + 1)) \<and>
   (utils_get_correct_pred_date pred lst = Inr r \<and> r \<noteq> pred \<longrightarrow>
      weekday r = 0 \<and> (weekday pred = 5 \<and> r = pred + 2 \<or> weekday pred = 6 \<and> r = pred + 1)) \<and>
   (get_prediction_date ucd w df n (Some s) = Inr p \<longrightarrow>
      (\<exists>d. get_date_from_string ucd s = Inr d \<and>
           (p \<noteq> toordinal d \<longrightarrow>
              weekday p = 0 \<and>
              (weekday (toordinal d) = 5 \<and> p = toordinal d + 2 \<or>
               weekday (toordinal d) = 6 \<and> p = toordinal d + 1)))) \<and>
   (utils_get_prediction_date ucd w df (Some s) = Inr p \<longrightarrow>
      (\<exists>d. utils_get_date_from_string ucd s = Inr d \<and>
           (p \<noteq> toordinal d \<longrightarrow>
              weekday p = 0 \<and>
              (weekday (toordinal d) = 5 \<and> p = toordinal d + 2 \<or>
               weekday (toordinal d) = 6 \<and> p = toordinal d + 1)))) \<and>
   predict ucd w df n date = Inl TypeError"
proof -
  have a: "\<exists>d. get_date_from_string ucd s = Inr d \<and>
           (p \<noteq> toordinal d \<longrightarrow>
              weekday p = 0 \<and>
              (weekday (toordinal d) = 5 \<and> p = toordinal d + 2 \<or>
               weekday (toordinal d) = 6 \<and> p = toordinal d + 1))"
    if "get_prediction_date ucd w df n (Some s) = Inr p"
  proof -
    from get_prediction_date_Some [OF that] obtain d a b where
      "get_date_from_string ucd s = Inr d" "get_correct_pred_date (toordinal d) a b n = Inr p"
      by blast
    then show ?thesis
      using resolver_changes(1) [of "toordinal d" a b n p] by blast
  qed
  have b: "\<exists>d. utils_get_date_from_string ucd s = Inr d \<and>
           (p \<noteq> toordinal d \<longrightarrow>
              weekday p = 0 \<and>
              (weekday (toordinal d) = 5 \<and> p = toordinal d + 2 \<or>
               weekday (toordinal d) = 6 \<and> p = toordinal d + 1))"
    if "utils_get_prediction_date ucd w df (Some s) = Inr p"
  proof -
    from utils_get_prediction_date_Some [OF that] obtain d b where
      "utils_get_date_from_string ucd s = Inr d"
      "utils_get_correct_pred_date (toordinal d) b = Inr p"
      by blast
    then show ?thesis
      using resolver_changes(2) [of "toordinal d" b p] by blast
  qed
  have c: "predict ucd w df n date = Inl TypeError"
    by (simp add: predict_def private_predict_def)
  show ?thesis
    using a b c resolver_changes(1) [of pred fst_d lst n r] resolver_changes(2) [of pred lst r]
    by blast
qed

lemma get_prediction_date_saturday:
  "get_prediction_date [1632] (World 1) [738522, 738890] 60 (Some (ustr ''2024-01-06'')) =
     Inr 738893"
  "get_prediction_date [1632] (World 2) [738522, 738890] 60 (Some (ustr ''2024-01-06'')) =
     Inr 738893"
  "utils_get_prediction_date [1632] (World 1) [738522, 738890] (Some (ustr ''2024-01-06'')) =
     Inr 738893"
  by code_simp+

lemma get_date_from_string_saturday:
  "get_date_from_string [1632] (ustr ''2024-01-06'') = Inr \<lparr>year = 2024, month = 1, day = 6\<rparr>"
  "toordinal \<lparr>year = 2024, month = 1, day = 6\<rparr> = 738891"
  by code_simp+

text \<open>
  An instance of C10: data from 2023-01-02 to Friday 2024-01-05, date asked for Saturday
  2024-01-06. Both resolvers return Monday 2024-01-08, and so do both
  \<open>get_prediction_date\<close> functions on the string 2024-01-06, whatever the clock shows.
\<close>

theorem C10_witness:
  "get_correct_pred_date (ymd2ord 2024 1 6) (ymd2ord 2023 1 2) (ymd2ord 2024 1 5) 60 =
     Inr (ymd2ord 2024 1 8) \<and>
   utils_get_correct_pred_date (ymd2ord 2024 1 6) (ymd2ord 2024 1 5) = Inr (ymd2ord 2024 1 8) \<and>
   ymd2ord 2024 1 8 \<noteq> ymd2ord 2024 1 6 \<and>
   weekday (ymd2ord 2024 1 6) = 5 \<and> weekday (ymd2ord 2024 1 8) = 0 \<and>
   get_prediction_date [1632] (World 1) [738522, 738890] 60 (Some (ustr ''2024-01-06'')) =
     Inr 738893 \<and>
   utils_get_prediction_date [1632] (World 1) [738522, 738890] (Some (ustr ''2024-01-06'')) =
     Inr 738893 \<and>
   get_date_from_string [1632] (ustr ''2024-01-06'') = Inr \<lparr>year = 2024, month = 1, day = 6\<rparr> \<and>
   toordinal \<lparr>year = 2024, month = 1, day = 6\<rparr> = 738891 \<and>
   predict [1632] (World 1) [738522, 738890] 60 (Some (ustr ''2024-01-06'')) = Inl TypeError"
  using C10_notice_monday [of 738891 738522 738890 60 738893 "[1632]" "World 1"
      "[738522, 738890]" "ustr ''2024-01-06''" 738893 "Some (ustr ''2024-01-06'')"]
    get_prediction_date_saturday(1,3) get_date_from_string_saturday
  by (simp add: ymd2ord_2024 keras_resolver_cases utils_resolver_cases MAXORDINAL_def
      weekday_def)

lemma strptime_error: "strptime ucd s = Inl e \<Longrightarrow> e = ValueError"
  by (auto simp add: strptime_def new_date_def split: list.splits if_splits prod.splits)

lemma get_date_from_string_error:
  "get_date_from_string ucd s = Inl e \<Longrightarrow> e = InvalidDateError s"
  using strptime_error [of ucd s]
  by (auto simp add: get_date_from_string_def split: sum.splits error.splits)

lemma init_errors:
  "InvalidPredictionDateError_init p d n l = OverflowError \<or>
   (\<exists>m. InvalidPredictionDateError_init p d n l = InvalidPredictionDateError m)"
  by (auto simp add: InvalidPredictionDateError_init_def timedelta_def date_add_eq
      split: sum.splits)

lemma utils_init_errors:
  "utils_InvalidPredictionDateError_init p d = OverflowError \<or>
   (\<exists>m. utils_InvalidPredictionDateError_init p d = utils_InvalidPredictionDateError m)"
  by (auto simp add: utils_InvalidPredictionDateError_init_def date_add_eq split: sum.splits)

lemma date_add_error: "date_add d n = Inl e \<Longrightarrow> e = OverflowError"
  by (simp add: date_add_eq split: if_splits)

lemma timedelta_error: "timedelta n = Inl e \<Longrightarrow> e = OverflowError"
  by (simp add: timedelta_def split: if_splits)

lemma keras_resolver_errors:
  assumes "get_correct_pred_date pred fst_d lst n = Inl e"
  shows "e = OverflowError \<or> (\<exists>m. e = InvalidPredictionDateError m)"
  using assms init_errors [of pred fst_d n True] init_errors [of pred lst n False]
  by (auto simp add: get_correct_pred_date_def date_sub_def
      dest!: date_add_error timedelta_error split: sum.splits option.splits if_splits)

lemma utils_resolver_errors:
  assumes "utils_get_correct_pred_date pred lst = Inl e"
  shows "e = OverflowError \<or> (\<exists>m. e = utils_InvalidPredictionDateError m)"
  using assms utils_init_errors [of pred lst]
  by (auto simp add: utils_get_correct_pred_date_def date_sub_def
      dest!: date_add_error split: sum.splits if_splits)

lemma index_errors:
  "index_first df = Inl e \<Longrightarrow> e = IndexError" "index_last df = Inl e \<Longrightarrow> e = IndexError"
  by (auto simp add: index_first_def index_last_def split: list.splits)

text \<open>
  C5, as stated, fails: the current date is not an argument of \<open>get_prediction_date\<close>.
  Two calls with the same arguments (the same data, sequence length 60, no date) on two
  different days, Wednesday 2024-01-10 and Thursday 2024-01-11, return different dates.
\<close>

theorem C5_counterexample:
  "get_prediction_date [1632] (World (ymd2ord 2024 1 10)) [ymd2ord 2023 1 2, ymd2ord 2024 1 10]
     60 None = Inr (ymd2ord 2024 1 10) \<and>
   get_prediction_date [1632] (World (ymd2ord 2024 1 11)) [ymd2ord 2023 1 2, ymd2ord 2024 1 10]
     60 None = Inr (ymd2ord 2024 1 11) \<and>
   ymd2ord 2024 1 10 \<noteq> ymd2ord 2024 1 11"
  by (simp add: ymd2ord_2024 get_prediction_date_def index_first_def index_last_def
      keras_resolver_cases MAXORDINAL_def weekday_def)

text \<open>
  C5, amended. The result of \<open>get_prediction_date\<close> is a function of its arguments and of
  the reading of the system clock: with a date given it is the same whatever the clock
  shows, without one it is the same whenever the clock shows the same day. It fails with
  the lower-bound or upper-bound error, with the error of a malformed date string
  (\<open>InvalidDateError\<close>, or the bare \<open>ValueError\<close> in utils/utils.py), with
  \<open>IndexError\<close> on empty data, and with \<open>OverflowError\<close> at the ends of the calendar.
\<close>

theorem C5_clock_and_failures:
  "get_prediction_date ucd w df n (Some s) = get_prediction_date ucd w' df n (Some s) \<and>
   utils_get_prediction_date ucd w df (Some s) = utils_get_prediction_date ucd w' df (Some s) \<and>
   (now_date w = now_date w' \<longrightarrow>
      get_prediction_date ucd w df n None = get_prediction_date ucd w' df n None \<and>
      utils_get_prediction_date ucd w df None = utils_get_prediction_date ucd w' df None) \<and>
   (\<forall>e. get_prediction_date ucd w df n date = Inl e \<longrightarrow>
      (\<exists>m. e = InvalidPredictionDateError m) \<or> (\<exists>t. e = InvalidDateError t) \<or>
      e = IndexError \<or> e = OverflowError) \<and>
   (\<forall>e. utils_get_prediction_date ucd w df date = Inl e \<longrightarrow>
      (\<exists>m. e = utils_InvalidPredictionDateError m) \<or> e = ValueError \<or>
      e = IndexError \<or> e = OverflowError)"
proof -
  have a: "get_prediction_date ucd w df n (Some s) = get_prediction_date ucd w' df n (Some s)"
    by (simp add: get_prediction_date_def)
  have b: "utils_get_prediction_date ucd w df (Some s) =
           utils_get_prediction_date ucd w' df (Some s)"
    by (simp add: utils_get_prediction_date_def)
  have c: "get_prediction_date ucd w df n None = get_prediction_date ucd w' df n None \<and>
      utils_get_prediction_date ucd w df None = utils_get_prediction_date ucd w' df None"
    if "now_date w = now_date w'"
    using that by (simp add: get_prediction_date_def utils_get_prediction_date_def)
  have d: "(\<exists>m. e = InvalidPredictionDateError m) \<or> (\<exists>t. e = InvalidDateError t) \<or>
      e = IndexError \<or> e = OverflowError"
    if "get_prediction_date ucd w df n date = Inl e" for e
    using that
    by (auto simp add: get_prediction_date_def
        dest!: get_date_from_string_error index_errors keras_resolver_errors
        split: option.splits sum.splits)
  have e: "(\<exists>m. e = utils_InvalidPredictionDateError m) \<or> e = ValueError \<or>
      e = IndexError \<or> e = OverflowError"
    if "utils_get_prediction_date ucd w df date = Inl e" for e
    using that
    by (auto simp add: utils_get_prediction_date_def utils_get_date_from_string_def
        dest!: strptime_error index_errors utils_resolver_errors
        split: option.splits sum.splits)
  show ?thesis
    using a b c d e by blast
qed

text \<open>
  An instance: the request for 2024-01-06 resolves to the same Monday under two clocks.
\<close>

theorem C5_witness:
  "get_prediction_date [1632] (World 1) [738522, 738890] 60 (Some (ustr ''2024-01-06'')) =
     Inr 738893 \<and>
   get_prediction_date [1632] (World 2) [738522, 738890] 60 (Some (ustr ''2024-01-06'')) =
     Inr 738893 \<and>
   now_date (World 1) \<noteq> now_date (World 2)"
  using C5_clock_and_failures [of "[1632]" "World 1" "[738522, 738890]" 60
      "ustr ''2024-01-06''" "World 2"]
  by (simp add: get_prediction_date_saturday)

section \<open>Digits, numbers and their decimal notation\<close>

lemma digit_char_code: "digit_char k = 48 + k"
  by (simp add: digit_char_def)

lemma ustr_classes:
  "ustr ''-'' = [45]" "ustr '' '' = [32]" "ustr ''0'' = [48]" "ustr ''1'' = [49]"
  "ustr ''3'' = [51]" "ustr ''01'' = [48, 49]" "ustr ''12'' = [49, 50]"
  "ustr ''012'' = [48, 49, 50]" "ustr ''123456789'' = [49, 50, 51, 52, 53, 54, 55, 56, 57]"
  by (simp_all add: ustr_def)

lemma decimal_less:
  assumes "decimal ucd c = Some v"
  shows "v < 10"
proof (cases "c < 128")
  case True
  then show ?thesis
    using assms by (auto simp add: decimal_def split: if_splits)
next
  case False
  then obtain z where "find (\<lambda>z. z \<le> c \<and> c < z + 10) ucd = Some z" "v = c - z"
    using assms by (auto simp add: decimal_def split: option.splits)
  then show ?thesis
    by (auto simp add: find_Some_iff)
qed

lemma decimal_digit_char: "k < 10 \<Longrightarrow> decimal ucd (digit_char k) = Some k"
  by (simp add: decimal_def digit_char_code)

lemma decimal_blank: "decimal ucd 32 = None" "decimal ucd 45 = None"
  by (simp_all add: decimal_def)

lemma is_digit_char:
  "is_digit c \<longleftrightarrow> (\<exists>k<10. c = digit_char k)"
proof
  assume "is_digit c"
  then have "c - 48 < 10" "c = digit_char (c - 48)"
    by (auto simp add: is_digit_def digit_char_code)
  then show "\<exists>k<10. c = digit_char k"
    by blast
next
  assume "\<exists>k<10. c = digit_char k"
  then show "is_digit c"
    by (auto simp add: is_digit_def digit_char_code)
qed

lemma digit_value_char: "digit_value (digit_char k) = int k"
  by (simp add: digit_value_def digit_char_code)

lemma digit_classes:
  "digit_char k \<in> set (ustr ''123456789'') \<longleftrightarrow> 1 \<le> k \<and> k < 10"
  "digit_char k \<in> set (ustr ''012'') \<longleftrightarrow> k \<le> 2"
  "digit_char k \<in> set (ustr ''01'') \<longleftrightarrow> k \<le> 1"
  "digit_char k \<in> set (ustr ''12'') \<longleftrightarrow> k = 1 \<or> k = 2"
  "digit_char k \<in> set (ustr ''0'') \<longleftrightarrow> k = 0"
  "digit_char k \<in> set (ustr ''1'') \<longleftrightarrow> k = 1"
  "digit_char k \<in> set (ustr ''3'') \<longleftrightarrow> k = 3"
  "digit_char k \<in> set (ustr ''-'') \<longleftrightarrow> False"
  "digit_char k \<in> set (ustr '' '') \<longleftrightarrow> False"
  unfolding ustr_classes digit_char_code by auto

lemma str_nat_digit: "k < 10 \<Longrightarrow> str_nat k = [digit_char k]"
  by (simp add: str_nat.simps)

lemma str_nat_step:
  assumes "r < 10" "0 < q"
  shows "str_nat (10 * q + r) = str_nat q @ [digit_char r]"
proof -
  have "\<not> 10 * q + r < 10" "(10 * q + r) div 10 = q" "(10 * q + r) mod 10 = r"
    using assms by auto
  then show ?thesis
    by (subst str_nat.simps) simp
qed

lemma format_0d_nat:
  "format_0d w (int n) = replicate (w - length (str_nat n)) 48 @ str_nat n"
  by (simp add: format_0d_def)

lemma pad_step:
  assumes "r < 10" "0 < w"
  shows "format_0d (Suc w) (int (10 * q + r)) = format_0d w (int q) @ [digit_char r]"
proof (cases "q = 0")
  case True
  have "replicate w (48::nat) = replicate (w - 1) 48 @ [48]"
    using assms(2) by (metis Suc_pred' replicate_Suc replicate_append_same)
  then show ?thesis
    unfolding format_0d_nat using True assms(1)
    by (simp add: str_nat_digit digit_char_code)
next
  case False
  then show ?thesis
    unfolding format_0d_nat using assms(1)
    by (simp add: str_nat_step Suc_diff_le)
qed

lemma format_one: "k < 10 \<Longrightarrow> format_0d (Suc 0) (int k) = [digit_char k]"
  unfolding format_0d_nat by (simp add: str_nat_digit)

lemma format_one_numeral: "k < 10 \<Longrightarrow> format_0d 1 (int k) = [digit_char k]"
  using format_one [of k] by simp

lemma format_two:
  assumes "a < 10" "b < 10"
  shows "format_0d 2 (int (10 * a + b)) = [digit_char a, digit_char b]"
proof -
  have "format_0d (Suc (Suc 0)) (int (10 * a + b)) = format_0d (Suc 0) (int a) @ [digit_char b]"
    using assms(2) by (intro pad_step) simp_all
  moreover have "Suc (Suc 0) = 2"
    by simp
  ultimately show ?thesis
    unfolding format_one [OF assms(1)] by simp
qed

lemma format_one_two:
  assumes "a < 10" "b < 10" "0 < a"
  shows "format_0d (Suc 0) (int (10 * a + b)) = [digit_char a, digit_char b]"
  unfolding format_0d_nat using assms by (simp add: str_nat_step str_nat_digit)

lemma format_four:
  assumes "a < 10" "b < 10" "c < 10" "d < 10"
  shows "format_0d 4 (int (1000 * a + 100 * b + 10 * c + d)) =
         [digit_char a, digit_char b, digit_char c, digit_char d]"
proof -
  have n: "1000 * a + 100 * b + 10 * c + d = 10 * (10 * (10 * a + b) + c) + d"
    by simp
  have "format_0d (Suc 3) (int (10 * (10 * (10 * a + b) + c) + d)) =
        format_0d 3 (int (10 * (10 * a + b) + c)) @ [digit_char d]"
    using assms(4) by (intro pad_step) simp_all
  moreover have "format_0d (Suc 2) (int (10 * (10 * a + b) + c)) =
        format_0d 2 (int (10 * a + b)) @ [digit_char c]"
    using assms(3) by (intro pad_step) simp_all
  moreover have "Suc 3 = 4" "Suc 2 = 3"
    by simp_all
  ultimately show ?thesis
    unfolding n format_two [OF assms(1,2)] by simp
qed

lemma int_of_string_decimal:
  "decimal ucd a = Some va \<Longrightarrow> decimal ucd b = Some vb \<Longrightarrow> decimal ucd c = Some vc \<Longrightarrow>
   decimal ucd e = Some ve \<Longrightarrow>
     int_of_string ucd [a, b, c, e] = int (1000 * va + 100 * vb + 10 * vc + ve)"
  "decimal ucd a = Some va \<Longrightarrow> decimal ucd b = Some vb \<Longrightarrow>
     int_of_string ucd [a, b] = int (10 * va + vb)"
  "decimal ucd a = Some va \<Longrightarrow> int_of_string ucd [a] = int va"
  "decimal ucd a = Some va \<Longrightarrow> int_of_string ucd [32, a] = int va"
  using decimal_blank(1) [of ucd] by (auto simp add: int_of_string_def)

lemma int_of_string_digits:
  "a < 10 \<Longrightarrow> b < 10 \<Longrightarrow> c < 10 \<Longrightarrow> d < 10 \<Longrightarrow>
     int_of_string ucd [digit_char a, digit_char b, digit_char c, digit_char d] =
       int (1000 * a + 100 * b + 10 * c + d)"
  "a < 10 \<Longrightarrow> b < 10 \<Longrightarrow> int_of_string ucd [digit_char a, digit_char b] = int (10 * a + b)"
  "a < 10 \<Longrightarrow> int_of_string ucd [digit_char a] = int a"
  "a < 10 \<Longrightarrow> int_of_string ucd [32, digit_char a] = int a"
  by (simp_all add: int_of_string_decimal decimal_digit_char)

lemma two_digits:
  assumes "m < 100"
  shows "\<exists>a b. a < 10 \<and> b < 10 \<and> m = 10 * a + (b::nat)"
proof -
  have "m div 10 < 10" using assms by simp
  moreover have "m mod 10 < 10" by simp
  moreover have "m = 10 * (m div 10) + m mod 10" by simp
  ultimately show ?thesis by blast
qed

lemma four_digits:
  assumes "n < 10000"
  shows "\<exists>a b c d. a < 10 \<and> b < 10 \<and> c < 10 \<and> d < 10 \<and>
      n = 1000 * a + 100 * b + 10 * c + (d::nat)"
proof -
  have "n div 100 < 100" using assms by simp
  then obtain a b where ab: "a < 10" "b < 10" "n div 100 = 10 * a + b"
    using two_digits by blast
  have "n mod 100 < 100" by simp
  then obtain c d where cd: "c < 10" "d < 10" "n mod 100 = 10 * c + d"
    using two_digits by blast
  have "n = 100 * (n div 100) + n mod 100" by simp
  then have "n = 1000 * a + 100 * b + 10 * c + d"
    unfolding ab(3) cd(3) by simp
  then show ?thesis
    using ab(1,2) cd(1,2) by blast
qed

section \<open>What the pattern of the format matches\<close>

lemma one_of_Nil: "one_of cls [] = []"
  by (simp add: one_of_def)

lemma one_of_Cons:
  "one_of cls (c # r) = (if c \<in> set (ustr cls) then [([c], r)] else [])"
  by (simp add: one_of_def)

lemma digit_Nil: "digit ucd [] = []"
  by (simp add: digit_def)

lemma digit_Some: "decimal ucd c = Some v \<Longrightarrow> digit ucd (c # r) = [([c], r)]"
  by (simp add: digit_def)

lemma one_of_hyphen: "one_of ''-'' (45 # r) = [([45], r)]"
  by (simp add: one_of_Cons ustr_classes)

lemma one_of_other:
  "one_of ''1'' (45 # r) = []" "one_of ''0'' (45 # r) = []" "one_of ''012'' (45 # r) = []"
  "one_of ''3'' (32 # r) = []" "one_of ''12'' (32 # r) = []" "one_of ''0'' (32 # r) = []"
  "one_of ''123456789'' (32 # r) = []" "one_of '' '' (32 # r) = [([32], r)]"
  by (simp_all add: one_of_Cons ustr_classes)

lemma one_of_digit_char:
  "one_of ''123456789'' (digit_char k # r) =
     (if 1 \<le> k \<and> k < 10 then [([digit_char k], r)] else [])"
  "one_of ''012'' (digit_char k # r) = (if k \<le> 2 then [([digit_char k], r)] else [])"
  "one_of ''01'' (digit_char k # r) = (if k \<le> 1 then [([digit_char k], r)] else [])"
  "one_of ''12'' (digit_char k # r) = (if k = 1 \<or> k = 2 then [([digit_char k], r)] else [])"
  "one_of ''0'' (digit_char k # r) = (if k = 0 then [([digit_char k], r)] else [])"
  "one_of ''1'' (digit_char k # r) = (if k = 1 then [([digit_char k], r)] else [])"
  "one_of ''3'' (digit_char k # r) = (if k = 3 then [([digit_char k], r)] else [])"
  "one_of ''-'' (digit_char k # r) = []"
  "one_of '' '' (digit_char k # r) = []"
  unfolding one_of_Cons digit_classes by simp_all

lemmas pattern_defs = re_Y_def re_m_def re_d_def alt_def seq_def

lemma re_Y_digits:
  assumes "decimal ucd a = Some va" "decimal ucd b = Some vb" "decimal ucd c = Some vc"
    "decimal ucd e = Some ve"
  shows "re_Y ucd (a # b # c # e # r) = [([a, b, c, e], r)]"
  using assms by (simp add: pattern_defs digit_Some)

lemma re_m_two:
  assumes "a < 10" "b < 10" "1 \<le> 10 * a + b" "10 * a + b \<le> 12"
  shows "\<exists>ms. re_m (digit_char a # digit_char b # r) = ([digit_char a, digit_char b], r) # ms"
proof -
  have "a = 0 \<and> 1 \<le> b \<or> a = 1 \<and> b \<le> 2"
    using assms by linarith
  then show ?thesis
    using assms(1,2) by (auto simp add: pattern_defs one_of_digit_char)
qed

lemma re_m_one:
  assumes "b < 10" "1 \<le> b"
  shows "\<exists>ms. re_m (digit_char b # 45 # r) = ([digit_char b], 45 # r) # ms"
  using assms by (simp add: pattern_defs one_of_digit_char one_of_other)

lemma re_d_two:
  assumes "a < 10" "b < 10" "1 \<le> 10 * a + b" "10 * a + b \<le> 31"
  shows "\<exists>ds. re_d ucd [digit_char a, digit_char b] = ([digit_char a, digit_char b], []) # ds"
proof -
  have "a = 0 \<and> 1 \<le> b \<or> a = 1 \<or> a = 2 \<or> a = 3 \<and> b \<le> 1"
    using assms by linarith
  then show ?thesis
    using assms(1,2) decimal_digit_char [OF assms(2), of ucd]
    by (auto simp add: pattern_defs one_of_digit_char digit_Some)
qed

lemma re_d_tens:
  assumes "j = 1 \<or> j = 2" "decimal ucd c = Some v"
  shows "\<exists>ds. re_d ucd [digit_char j, c] = ([digit_char j, c], []) # ds"
  using assms by (auto simp add: pattern_defs one_of_digit_char digit_Some)

lemma re_d_one:
  assumes "b < 10" "1 \<le> b"
  shows "\<exists>ds. re_d ucd [digit_char b] = ([digit_char b], []) # ds"
  using assms by (simp add: pattern_defs one_of_digit_char one_of_Nil digit_Nil)

lemma re_d_blank:
  assumes "b < 10" "1 \<le> b"
  shows "\<exists>ds. re_d ucd [32, digit_char b] = ([32, digit_char b], []) # ds"
  using assms by (simp add: pattern_defs one_of_digit_char one_of_other)

lemma strptime_of_matches:
  assumes "decimal ucd a = Some va" "decimal ucd b = Some vb" "decimal ucd c = Some vc"
    "decimal ucd e = Some ve"
    and "re_m (m @ 45 # dd) = (m, 45 # dd) # ms"
    and "re_d ucd dd = (dd, []) # ds"
  shows "strptime ucd ([a, b, c, e] @ 45 # m @ 45 # dd) =
         new_date (int_of_string ucd [a, b, c, e]) (int_of_string ucd m) (int_of_string ucd dd)"
proof -
  have "\<exists>tl. format_regex ucd ([a, b, c, e] @ 45 # m @ 45 # dd) = (([a, b, c, e], m, dd), []) # tl"
    using assms(5,6) by (simp add: format_regex_def re_Y_digits [OF assms(1-4)] one_of_hyphen)
  then show ?thesis
    by (auto simp add: strptime_def)
qed

lemma days_in_month_le:
  assumes "1 \<le> m" "m \<le> 12"
  shows "days_in_month y m \<le> 31"
proof -
  have "m = 1 \<or> m = 2 \<or> m = 3 \<or> m = 4 \<or> m = 5 \<or> m = 6 \<or> m = 7 \<or> m = 8 \<or> m = 9 \<or>
        m = 10 \<or> m = 11 \<or> m = 12"
    using assms by presburger
  then show ?thesis
    by (auto simp add: days_in_month_def DAYS_IN_MONTH_def)
qed

lemma new_date_valid: "valid_date d \<Longrightarrow> new_date (year d) (month d) (day d) = Inr d"
  by (simp add: new_date_def valid_date_def)

lemma new_date_Inr:
  "new_date y m dd = Inr d \<Longrightarrow> valid_date d \<and> year d = y \<and> month d = m \<and> day d = dd"
  by (auto simp add: new_date_def valid_date_def split: if_splits)

lemma nat_digits4:
  assumes "1 \<le> y" "y \<le> (9999::int)"
  shows "\<exists>a b c e. a < 10 \<and> b < 10 \<and> c < 10 \<and> e < 10 \<and>
           y = int (1000 * a + 100 * b + 10 * c + e)"
proof -
  have "nat y < 10000" using assms by simp
  from four_digits [OF this] obtain a b c e where "a < 10" "b < 10" "c < 10" "e < 10"
    "nat y = 1000 * a + 100 * b + 10 * c + e"
    by blast
  moreover from this(5) have "y = int (1000 * a + 100 * b + 10 * c + e)"
    using assms by linarith
  ultimately show ?thesis by blast
qed

lemma nat_digits2:
  assumes "1 \<le> m" "m \<le> (99::int)"
  shows "\<exists>a b. a < 10 \<and> b < 10 \<and> m = int (10 * a + b) \<and> 1 \<le> 10 * a + b"
proof -
  have "nat m < 100" using assms by simp
  from two_digits [OF this] obtain a b where "a < 10" "b < 10" "nat m = 10 * a + b"
    by blast
  moreover from this(3) have "m = int (10 * a + b)" "1 \<le> 10 * a + b"
    using assms by linarith+
  ultimately show ?thesis by blast
qed

lemma four_decimals:
  assumes "length y = 4" "list_all (\<lambda>c. decimal ucd c \<noteq> None) y"
  shows "\<exists>a b c e va vb vc ve. y = [a, b, c, e] \<and> decimal ucd a = Some va \<and>
           decimal ucd b = Some vb \<and> decimal ucd c = Some vc \<and> decimal ucd e = Some ve"
proof -
  from assms(1) obtain a b c e where y: "y = [a, b, c, e]"
    by (auto simp add: length_Suc_conv numeral_eq_Suc)
  then show ?thesis
    using assms(2) by auto
qed

lemma month_forms:
  assumes "1 \<le> n" "n \<le> 12" "month_field n t"
  shows "(\<exists>ms. re_m (t @ 45 # r) = (t, 45 # r) # ms) \<and> int_of_string ucd t = n"
proof -
  from nat_digits2 [of n] assms(1,2) obtain m1 m2 where
    ms: "m1 < 10" "m2 < 10" "1 \<le> 10 * m1 + m2" and md: "n = int (10 * m1 + m2)"
    by auto
  have m12: "10 * m1 + m2 \<le> 12"
    using assms(2) md by linarith
  have two: "format_0d 2 n = [digit_char m1, digit_char m2]"
    unfolding md by (rule format_two [OF ms(1,2)])
  have one: "format_0d 1 n = (if m1 = 0 then [digit_char m2] else [digit_char m1, digit_char m2])"
    unfolding md using ms(1,2) format_one [of m2] format_one_two [of m1 m2] by simp
  have "t = [digit_char m1, digit_char m2] \<or> m1 = 0 \<and> t = [digit_char m2]"
    using assms(3) unfolding month_field_def two one by (cases "m1 = 0") simp_all
  then consider "t = [digit_char m1, digit_char m2]" | "m1 = 0" "t = [digit_char m2]"
    by blast
  then show ?thesis
  proof cases
    case 1
    then show ?thesis
      using re_m_two [OF ms(1,2,3) m12] int_of_string_digits(2) [OF ms(1,2)] md by simp
  next
    case 2
    then show ?thesis
      using re_m_one [of m2] ms int_of_string_digits(3) [of m2] md by simp
  qed
qed

lemma day_forms:
  assumes "1 \<le> n" "n \<le> 31" "day_field ucd n t"
  shows "(\<exists>ds. re_d ucd t = (t, []) # ds) \<and> int_of_string ucd t = n"
proof -
  from nat_digits2 [of n] assms(1,2) obtain d1 d2 where
    dds: "d1 < 10" "d2 < 10" "1 \<le> 10 * d1 + d2" and ddd: "n = int (10 * d1 + d2)"
    by auto
  have d31: "10 * d1 + d2 \<le> 31"
    using assms(2) ddd by linarith
  have two: "format_0d 2 n = [digit_char d1, digit_char d2]"
    unfolding ddd by (rule format_two [OF dds(1,2)])
  have one: "format_0d 1 n = (if d1 = 0 then [digit_char d2] else [digit_char d1, digit_char d2])"
    unfolding ddd using dds(1,2) format_one [of d2] format_one_two [of d1 d2] by simp
  have small: "d1 = 0" if "n < 10"
    using that ddd by linarith
  from assms(3) consider
    (ascii) "t = format_0d 2 n \<or> t = format_0d 1 n \<or> n < 10 \<and> t = 32 # format_0d 1 n"
    | (tens) "length t = 2" "hd t \<in> set (ustr ''12'')" "decimal ucd (last t) \<noteq> None"
        "int_of_string ucd t = n"
    unfolding day_field_def ustr_classes by auto
  then show ?thesis
  proof cases
    case ascii
    then have "t = [digit_char d1, digit_char d2] \<or> d1 = 0 \<and> t = [digit_char d2] \<or>
          d1 = 0 \<and> t = [32, digit_char d2]"
      using small unfolding two one by (cases "d1 = 0") auto
    then consider "t = [digit_char d1, digit_char d2]" | "d1 = 0" "t = [digit_char d2]"
      | "d1 = 0" "t = [32, digit_char d2]"
      by blast
    then show ?thesis
    proof cases
      case 1
      then show ?thesis
        using re_d_two [OF dds(1,2,3) d31] int_of_string_digits(2) [OF dds(1,2)] ddd by simp
    next
      case 2
      then show ?thesis
        using re_d_one [of d2] dds int_of_string_digits(3) [of d2] ddd by simp
    next
      case 3
      then show ?thesis
        using re_d_blank [of d2] dds int_of_string_digits(4) [of d2] ddd by simp
    qed
  next
    case tens
    from tens(1) obtain h c where t: "t = [h, c]"
      by (auto simp add: length_Suc_conv numeral_eq_Suc)
    from tens(2) have "h = digit_char 1 \<or> h = digit_char 2"
      unfolding t ustr_classes digit_char_code by simp
    then obtain j where j: "j = 1 \<or> j = 2" "h = digit_char j"
      by blast
    from tens(3) obtain v where v: "decimal ucd c = Some v"
      unfolding t by auto
    show ?thesis
      using re_d_tens [OF j(1) v] tens(4) unfolding t j(2) by simp
  qed
qed

lemma strptime_accepts:
  assumes v: "valid_date d" and s: "accepted_form ucd d s"
  shows "strptime ucd s = Inr d"
proof -
  from v have m: "1 \<le> month d" "month d \<le> 12"
    and dd: "1 \<le> day d" "day d \<le> days_in_month (year d) (month d)"
    by (simp_all add: valid_date_def)
  from dd m have d31: "day d \<le> 31"
    using days_in_month_le [of "month d" "year d"] by linarith
  from s obtain y t u where su: "s = y @ 45 # t @ 45 # u"
    and y: "length y = 4" "list_all (\<lambda>c. decimal ucd c \<noteq> None) y"
      "int_of_string ucd y = year d"
    and t: "month_field (month d) t" and u: "day_field ucd (day d) u"
    unfolding accepted_form_def year_field_def ustr_classes by auto
  from four_decimals [OF y(1,2)] obtain a b c e va vb vc ve where
    y4: "y = [a, b, c, e]"
    and ds: "decimal ucd a = Some va" "decimal ucd b = Some vb" "decimal ucd c = Some vc"
      "decimal ucd e = Some ve"
    by blast
  from month_forms [OF m t, of u ucd] obtain ms where
    rm: "re_m (t @ 45 # u) = (t, 45 # u) # ms" and it: "int_of_string ucd t = month d"
    by blast
  from day_forms [OF dd(1) d31 u] obtain ds' where
    rd: "re_d ucd u = (u, []) # ds'" and iu: "int_of_string ucd u = day d"
    by blast
  show ?thesis
    unfolding su y4 strptime_of_matches [OF ds rm rd] it iu y(3) [unfolded y4]
    by (rule new_date_valid [OF v])
qed

lemma one_of_mem:
  assumes "(t, r) \<in> set (one_of cls s)"
  shows "\<exists>c. c \<in> set (ustr cls) \<and> t = [c] \<and> s = c # r"
  using assms by (cases s) (auto simp add: one_of_def split: if_splits)

lemma digit_mem:
  assumes "(t, r) \<in> set (digit ucd s)"
  shows "\<exists>c v. decimal ucd c = Some v \<and> t = [c] \<and> s = c # r"
proof (cases s)
  case Nil
  then show ?thesis
    using assms by (simp add: digit_def)
next
  case (Cons c r')
  then show ?thesis
    using assms by (cases "decimal ucd c") (auto simp add: digit_def)
qed

lemma seq_mem:
  assumes "(t, r) \<in> set (seq p q s)"
  shows "\<exists>t1 t2 r1. (t1, r1) \<in> set (p s) \<and> (t2, r) \<in> set (q r1) \<and> t = t1 @ t2"
  using assms by (auto simp add: seq_def)

lemma alt_mem: "(t, r) \<in> set (alt ps s) \<longleftrightarrow> (\<exists>p\<in>set ps. (t, r) \<in> set (p s))"
  by (auto simp add: alt_def)

lemma one_of_mem_digit:
  assumes "(t, r) \<in> set (one_of cls s)" "set (ustr cls) \<subseteq> set (ustr ''0123456789'')"
  shows "\<exists>k<10. t = [digit_char k] \<and> s = digit_char k # r \<and> digit_char k \<in> set (ustr cls)"
proof -
  from one_of_mem [OF assms(1)] obtain c where c: "c \<in> set (ustr cls)" "t = [c]" "s = c # r"
    by blast
  then have "c \<in> set (ustr ''0123456789'')"
    using assms(2) by blast
  then have "is_digit c"
    unfolding is_digit_def by (auto simp add: ustr_def)
  then obtain k where "k < 10" "c = digit_char k"
    unfolding is_digit_char by blast
  then show ?thesis
    using c by blast
qed

lemma seq_one_of_mem:
  assumes "(t, r) \<in> set (seq (one_of A) (one_of B) s)"
    "set (ustr A) \<subseteq> set (ustr ''0123456789'')" "set (ustr B) \<subseteq> set (ustr ''0123456789'')"
  shows "\<exists>j k. j < 10 \<and> k < 10 \<and> t = [digit_char j, digit_char k] \<and>
           s = digit_char j # digit_char k # r \<and> digit_char j \<in> set (ustr A) \<and>
           digit_char k \<in> set (ustr B)"
proof -
  from seq_mem [OF assms(1)] obtain t1 t2 r1 where
    a: "(t1, r1) \<in> set (one_of A s)" and b: "(t2, r) \<in> set (one_of B r1)" and t: "t = t1 @ t2"
    by blast
  from one_of_mem_digit [OF a assms(2)] obtain j where
    j: "j < 10" "t1 = [digit_char j]" "s = digit_char j # r1" "digit_char j \<in> set (ustr A)"
    by blast
  from one_of_mem_digit [OF b assms(3)] obtain k where
    k: "k < 10" "t2 = [digit_char k]" "r1 = digit_char k # r" "digit_char k \<in> set (ustr B)"
    by blast
  have "t = [digit_char j, digit_char k]" "s = digit_char j # digit_char k # r"
    using t j(2,3) k(2,3) by simp_all
  then show ?thesis
    using j(1,4) k(1,4) by blast
qed

lemma re_Y_mem:
  assumes "(y, r) \<in> set (re_Y ucd s)"
  shows "s = y @ r \<and> length y = 4 \<and> list_all (\<lambda>c. decimal ucd c \<noteq> None) y"
proof -
  from seq_mem [OF assms [unfolded re_Y_def]] obtain t1 u1 r1 where
    a: "(t1, r1) \<in> set (digit ucd s)"
    and u1: "(u1, r) \<in> set (seq (digit ucd) (seq (digit ucd) (digit ucd)) r1)"
    and y: "y = t1 @ u1"
    by blast
  from seq_mem [OF u1] obtain t2 u2 r2 where
    b: "(t2, r2) \<in> set (digit ucd r1)"
    and u2: "(u2, r) \<in> set (seq (digit ucd) (digit ucd) r2)"
    and u1': "u1 = t2 @ u2"
    by blast
  from seq_mem [OF u2] obtain t3 t4 r3 where
    c: "(t3, r3) \<in> set (digit ucd r2)" and e: "(t4, r) \<in> set (digit ucd r3)"
    and u2': "u2 = t3 @ t4"
    by blast
  from digit_mem [OF a] obtain c1 v1 where
    c1: "decimal ucd c1 = Some v1" "t1 = [c1]" "s = c1 # r1"
    by blast
  from digit_mem [OF b] obtain c2 v2 where
    c2: "decimal ucd c2 = Some v2" "t2 = [c2]" "r1 = c2 # r2"
    by blast
  from digit_mem [OF c] obtain c3 v3 where
    c3: "decimal ucd c3 = Some v3" "t3 = [c3]" "r2 = c3 # r3"
    by blast
  from digit_mem [OF e] obtain c4 v4 where
    c4: "decimal ucd c4 = Some v4" "t4 = [c4]" "r3 = c4 # r"
    by blast
  have "y = [c1, c2, c3, c4]"
    using y u1' u2' c1(2) c2(2) c3(2) c4(2) by simp
  then show ?thesis
    using c1(1,3) c2(1,3) c3(1,3) c4(1,3) by simp
qed

lemma digit_subsets:
  "set (ustr ''1'') \<subseteq> set (ustr ''0123456789'')" "set (ustr ''0'') \<subseteq> set (ustr ''0123456789'')"
  "set (ustr ''3'') \<subseteq> set (ustr ''0123456789'')" "set (ustr ''012'') \<subseteq> set (ustr ''0123456789'')"
  "set (ustr ''01'') \<subseteq> set (ustr ''0123456789'')" "set (ustr ''12'') \<subseteq> set (ustr ''0123456789'')"
  "set (ustr ''123456789'') \<subseteq> set (ustr ''0123456789'')"
  by (simp_all add: ustr_def)

lemma re_m_mem:
  assumes "(m, r) \<in> set (re_m s)"
  shows "s = m @ r \<and> (\<exists>a b. a < 10 \<and> b < 10 \<and> 1 \<le> 10 * a + b \<and> 10 * a + b \<le> 12 \<and>
           (m = [digit_char a, digit_char b] \<or> a = 0 \<and> m = [digit_char b]))"
proof -
  from assms consider
    (one) "(m, r) \<in> set (seq (one_of ''1'') (one_of ''012'') s)"
    | (zero) "(m, r) \<in> set (seq (one_of ''0'') (one_of ''123456789'') s)"
    | (short) "(m, r) \<in> set (one_of ''123456789'' s)"
    unfolding re_m_def alt_mem by auto
  then show ?thesis
  proof cases
    case one
    from seq_one_of_mem [OF one digit_subsets(1,4)] obtain j k where
      jk: "j < 10" "k < 10" "m = [digit_char j, digit_char k]"
        "s = digit_char j # digit_char k # r"
        "digit_char j \<in> set (ustr ''1'')" "digit_char k \<in> set (ustr ''012'')"
      by blast
    have "j = 1" "k \<le> 2"
      using jk(5,6) unfolding digit_classes by blast+
    then show ?thesis
      using jk(1-4) by (intro conjI exI [of _ j] exI [of _ k]) simp_all
  next
    case zero
    from seq_one_of_mem [OF zero digit_subsets(2,7)] obtain j k where
      jk: "j < 10" "k < 10" "m = [digit_char j, digit_char k]"
        "s = digit_char j # digit_char k # r"
        "digit_char j \<in> set (ustr ''0'')" "digit_char k \<in> set (ustr ''123456789'')"
      by blast
    have "j = 0" "1 \<le> k"
      using jk(5,6) unfolding digit_classes by blast+
    then show ?thesis
      using jk(1-4) by (intro conjI exI [of _ j] exI [of _ k]) simp_all
  next
    case short
    from one_of_mem_digit [OF short digit_subsets(7)] obtain k where
      k: "k < 10" "m = [digit_char k]" "s = digit_char k # r"
        "digit_char k \<in> set (ustr ''123456789'')"
      by blast
    have "1 \<le> k"
      using k(4) unfolding digit_classes by blast
    then show ?thesis
      using k(1-3) by (intro conjI exI [of _ 0] exI [of _ k]) simp_all
  qed
qed

lemma re_d_mem:
  assumes "(dd, r) \<in> set (re_d ucd s)"
  shows "s = dd @ r \<and>
         ((\<exists>a b. a < 10 \<and> b < 10 \<and> 1 \<le> 10 * a + b \<and> 10 * a + b \<le> 31 \<and>
             (dd = [digit_char a, digit_char b] \<or> a = 0 \<and> dd = [digit_char b] \<or>
              a = 0 \<and> dd = [32, digit_char b])) \<or>
          (\<exists>j c v. (j = 1 \<or> j = 2) \<and> decimal ucd c = Some v \<and> dd = [digit_char j, c]))"
proof -
  from assms consider
    (three) "(dd, r) \<in> set (seq (one_of ''3'') (one_of ''01'') s)"
    | (tens) "(dd, r) \<in> set (seq (one_of ''12'') (digit ucd) s)"
    | (zero) "(dd, r) \<in> set (seq (one_of ''0'') (one_of ''123456789'') s)"
    | (short) "(dd, r) \<in> set (one_of ''123456789'' s)"
    | (blank) "(dd, r) \<in> set (seq (one_of '' '') (one_of ''123456789'') s)"
    unfolding re_d_def alt_mem by auto
  then show ?thesis
  proof cases
    case three
    from seq_one_of_mem [OF three digit_subsets(3,5)] obtain j k where
      jk: "j < 10" "k < 10" "dd = [digit_char j, digit_char k]"
        "s = digit_char j # digit_char k # r"
        "digit_char j \<in> set (ustr ''3'')" "digit_char k \<in> set (ustr ''01'')"
      by blast
    have "j = 3" "k \<le> 1"
      using jk(5,6) unfolding digit_classes by blast+
    then have "s = dd @ r \<and>
        (\<exists>a b. a < 10 \<and> b < 10 \<and> 1 \<le> 10 * a + b \<and> 10 * a + b \<le> 31 \<and>
             (dd = [digit_char a, digit_char b] \<or> a = 0 \<and> dd = [digit_char b] \<or>
              a = 0 \<and> dd = [32, digit_char b]))"
      using jk(1-4) by (intro conjI exI [of _ j] exI [of _ k]) simp_all
    then show ?thesis
      by blast
  next
    case tens
    from seq_mem [OF tens] obtain t1 t2 r1 where
      a: "(t1, r1) \<in> set (one_of ''12'' s)" and b: "(t2, r) \<in> set (digit ucd r1)"
      and t: "dd = t1 @ t2"
      by blast
    from one_of_mem_digit [OF a digit_subsets(6)] obtain j where
      j: "t1 = [digit_char j]" "s = digit_char j # r1" "digit_char j \<in> set (ustr ''12'')"
      by blast
    from digit_mem [OF b] obtain c v where
      c: "decimal ucd c = Some v" "t2 = [c]" "r1 = c # r"
      by blast
    have j12: "j = 1 \<or> j = 2"
      using j(3) unfolding digit_classes .
    have sd: "s = dd @ r" and dd: "dd = [digit_char j, c]"
      using j(1,2) c(2,3) t by simp_all
    from j12 c(1) dd
    have "\<exists>j c v. (j = 1 \<or> j = 2) \<and> decimal ucd c = Some v \<and> dd = [digit_char j, c]"
      by blast
    with sd show ?thesis
      by blast
  next
    case zero
    from seq_one_of_mem [OF zero digit_subsets(2,7)] obtain j k where
      jk: "j < 10" "k < 10" "dd = [digit_char j, digit_char k]"
        "s = digit_char j # digit_char k # r"
        "digit_char j \<in> set (ustr ''0'')" "digit_char k \<in> set (ustr ''123456789'')"
      by blast
    have "j = 0" "1 \<le> k"
      using jk(5,6) unfolding digit_classes by blast+
    then have "s = dd @ r \<and>
        (\<exists>a b. a < 10 \<and> b < 10 \<and> 1 \<le> 10 * a + b \<and> 10 * a + b \<le> 31 \<and>
             (dd = [digit_char a, digit_char b] \<or> a = 0 \<and> dd = [digit_char b] \<or>
              a = 0 \<and> dd = [32, digit_char b]))"
      using jk(1-4) by (intro conjI exI [of _ j] exI [of _ k]) simp_all
    then show ?thesis
      by blast
  next
    case short
    from one_of_mem_digit [OF short digit_subsets(7)] obtain k where
      k: "k < 10" "dd = [digit_char k]" "s = digit_char k # r"
        "digit_char k \<in> set (ustr ''123456789'')"
      by blast
    have "1 \<le> k"
      using k(4) unfolding digit_classes by blast
    then have "s = dd @ r \<and>
        (\<exists>a b. a < 10 \<and> b < 10 \<and> 1 \<le> 10 * a + b \<and> 10 * a + b \<le> 31 \<and>
             (dd = [digit_char a, digit_char b] \<or> a = 0 \<and> dd = [digit_char b] \<or>
              a = 0 \<and> dd = [32, digit_char b]))"
      using k(1-3) by (intro conjI exI [of _ 0] exI [of _ k]) simp_all
    then show ?thesis
      by blast
  next
    case blank
    from seq_mem [OF blank] obtain t1 t2 r1 where
      a: "(t1, r1) \<in> set (one_of '' '' s)" and b: "(t2, r) \<in> set (one_of ''123456789'' r1)"
      and t: "dd = t1 @ t2"
      by blast
    from one_of_mem [OF a] have sp: "t1 = [32]" "s = 32 # r1"
      unfolding ustr_classes by auto
    from one_of_mem_digit [OF b digit_subsets(7)] obtain k where
      k: "k < 10" "t2 = [digit_char k]" "r1 = digit_char k # r"
        "digit_char k \<in> set (ustr ''123456789'')"
      by blast
    have "1 \<le> k"
      using k(4) unfolding digit_classes by blast
    then have "s = dd @ r \<and>
        (\<exists>a b. a < 10 \<and> b < 10 \<and> 1 \<le> 10 * a + b \<and> 10 * a + b \<le> 31 \<and>
             (dd = [digit_char a, digit_char b] \<or> a = 0 \<and> dd = [digit_char b] \<or>
              a = 0 \<and> dd = [32, digit_char b]))"
      using k(1-3) sp t by (intro conjI exI [of _ 0] exI [of _ k]) simp_all
    then show ?thesis
      by blast
  qed
qed

lemma format_regex_mem:
  assumes "((y, m, dd), r) \<in> set (format_regex ucd s)"
  shows "\<exists>r2 r4. (y, 45 # r2) \<in> set (re_Y ucd s) \<and> (m, 45 # r4) \<in> set (re_m r2) \<and>
           (dd, r) \<in> set (re_d ucd r4)"
proof -
  from assms obtain r1 h1 r2 r3 h2 r4 where
    a: "(y, r1) \<in> set (re_Y ucd s)" and b: "(h1, r2) \<in> set (one_of ''-'' r1)"
    and c: "(m, r3) \<in> set (re_m r2)" and d: "(h2, r4) \<in> set (one_of ''-'' r3)"
    and e: "(dd, r) \<in> set (re_d ucd r4)"
    by (auto simp add: format_regex_def)
  from one_of_mem [OF b] have "r1 = 45 # r2"
    unfolding ustr_classes by auto
  moreover from one_of_mem [OF d] have "r3 = 45 # r4"
    unfolding ustr_classes by auto
  ultimately show ?thesis
    using a c e by blast
qed

lemma strptime_Inr:
  assumes "strptime ucd s = Inr d"
  shows "valid_date d \<and> accepted_form ucd d s"
proof -
  from assms obtain y m dd tl where fr: "format_regex ucd s = ((y, m, dd), []) # tl"
    and nd: "new_date (int_of_string ucd y) (int_of_string ucd m) (int_of_string ucd dd) = Inr d"
    by (auto simp add: strptime_def split: list.splits if_splits prod.splits)
  from fr have "((y, m, dd), []) \<in> set (format_regex ucd s)"
    by simp
  from format_regex_mem [OF this] obtain r2 r4 where
    ry: "(y, 45 # r2) \<in> set (re_Y ucd s)" and rm: "(m, 45 # r4) \<in> set (re_m r2)"
    and rd: "(dd, []) \<in> set (re_d ucd r4)"
    by blast
  from re_Y_mem [OF ry] have s: "s = y @ 45 # r2"
    and y: "length y = 4" "list_all (\<lambda>c. decimal ucd c \<noteq> None) y"
    by simp_all
  from re_m_mem [OF rm] obtain m1 m2 where r2: "r2 = m @ 45 # r4"
    and ms: "m1 < 10" "m2 < 10"
    and mf: "m = [digit_char m1, digit_char m2] \<or> m1 = 0 \<and> m = [digit_char m2]"
    by blast
  from re_d_mem [OF rd] have r4: "r4 = dd"
    and df: "(\<exists>a b. a < 10 \<and> b < 10 \<and> 1 \<le> 10 * a + b \<and> 10 * a + b \<le> 31 \<and>
             (dd = [digit_char a, digit_char b] \<or> a = 0 \<and> dd = [digit_char b] \<or>
              a = 0 \<and> dd = [32, digit_char b])) \<or>
          (\<exists>j c v. (j = 1 \<or> j = 2) \<and> decimal ucd c = Some v \<and> dd = [digit_char j, c])"
    by simp_all
  from new_date_Inr [OF nd] have v: "valid_date d"
    and yd: "int_of_string ucd y = year d"
    and md: "int_of_string ucd m = month d" and dd: "int_of_string ucd dd = day d"
    by simp_all
  have fy: "year_field ucd (year d) y"
    unfolding year_field_def using y yd by simp
  have im: "int_of_string ucd m = int (10 * m1 + m2)"
    using mf int_of_string_digits(2) [OF ms] int_of_string_digits(3) [OF ms(2)] by auto
  have fm: "month_field (month d) m"
    unfolding month_field_def md [symmetric] im
    using mf format_two [OF ms] format_one_numeral [OF ms(2)] by auto
  have fd: "day_field ucd (day d) dd"
    using df
  proof
    assume "\<exists>a b. a < 10 \<and> b < 10 \<and> 1 \<le> 10 * a + b \<and> 10 * a + b \<le> 31 \<and>
             (dd = [digit_char a, digit_char b] \<or> a = 0 \<and> dd = [digit_char b] \<or>
              a = 0 \<and> dd = [32, digit_char b])"
    then obtain d1 d2 where dds: "d1 < 10" "d2 < 10"
      and f: "dd = [digit_char d1, digit_char d2] \<or> d1 = 0 \<and> dd = [digit_char d2] \<or>
              d1 = 0 \<and> dd = [32, digit_char d2]"
      by blast
    have idd: "int_of_string ucd dd = int (10 * d1 + d2)"
      using f int_of_string_digits(2) [OF dds] int_of_string_digits(3) [OF dds(2)]
        int_of_string_digits(4) [OF dds(2)] by auto
    show ?thesis
      unfolding day_field_def dd [symmetric] idd ustr_classes
      using f dds(2) format_two [OF dds] format_one_numeral [OF dds(2)] by auto
  next
    assume "\<exists>j c v. (j = 1 \<or> j = 2) \<and> decimal ucd c = Some v \<and> dd = [digit_char j, c]"
    then obtain j c v where j: "j = 1 \<or> j = 2" and c: "decimal ucd c = Some v"
      and f: "dd = [digit_char j, c]"
      by blast
    have "digit_char j \<in> set (ustr ''12'')"
      unfolding digit_classes using j .
    then show ?thesis
      unfolding day_field_def using c dd f by simp
  qed
  have "s = y @ ustr ''-'' @ m @ ustr ''-'' @ dd"
    unfolding s r2 r4 ustr_classes by simp
  then have "accepted_form ucd d s"
    unfolding accepted_form_def using fy fm fd by blast
  with v show ?thesis
    by blast
qed

lemma strptime_iff: "strptime ucd s = Inr d \<longleftrightarrow> valid_date d \<and> accepted_form ucd d s"
  using strptime_Inr strptime_accepts by blast

lemma strptime_cases: "(\<exists>d. strptime ucd s = Inr d) \<or> strptime ucd s = Inl ValueError"
  using strptime_error [of ucd s] by (cases "strptime ucd s") auto

section \<open>Claims about date strings\<close>

lemma get_date_from_string_strptime:
  "get_date_from_string ucd s = Inr d \<longleftrightarrow> strptime ucd s = Inr d"
  "utils_get_date_from_string ucd s = Inr d \<longleftrightarrow> strptime ucd s = Inr d"
  by (auto simp add: get_date_from_string_def utils_get_date_from_string_def
      split: sum.splits error.splits)

lemma valid_iso_string_shape:
  assumes "valid_iso_string s"
  shows "\<exists>y1 y2 y3 y4 m1 m2 d1 d2.
    s = [y1, y2, y3, y4, 45, m1, m2, 45, d1, d2] \<and>
    is_digit y1 \<and> is_digit y2 \<and> is_digit y3 \<and> is_digit y4 \<and>
      is_digit m1 \<and> is_digit m2 \<and> is_digit d1 \<and> is_digit d2 \<and>
    valid_date
        \<lparr>year = 1000 * digit_value y1 + 100 * digit_value y2 + 10 * digit_value y3 + digit_value y4,
         month = 10 * digit_value m1 + digit_value m2,
         day = 10 * digit_value d1 + digit_value d2\<rparr>"
  using assms
  by (cases s rule: valid_iso_string.cases) simp_all

lemma valid_iso_string_isoformat:
  assumes "valid_iso_string s"
  shows "\<exists>d. valid_date d \<and> isoformat d = s"
proof -
  from valid_iso_string_shape [OF assms] obtain y1 y2 y3 y4 m1 m2 d1 d2 where
    s: "s = [y1, y2, y3, y4, 45, m1, m2, 45, d1, d2]"
    and dg: "is_digit y1" "is_digit y2" "is_digit y3" "is_digit y4"
      "is_digit m1" "is_digit m2" "is_digit d1" "is_digit d2"
    and v: "valid_date
        \<lparr>year = 1000 * digit_value y1 + 100 * digit_value y2 + 10 * digit_value y3 + digit_value y4,
         month = 10 * digit_value m1 + digit_value m2,
         day = 10 * digit_value d1 + digit_value d2\<rparr>"
    by blast
  from dg(1) obtain a where ka: "a < 10" "y1 = digit_char a"
    unfolding is_digit_char by blast
  from dg(2) obtain b where kb: "b < 10" "y2 = digit_char b"
    unfolding is_digit_char by blast
  from dg(3) obtain c where kc: "c < 10" "y3 = digit_char c"
    unfolding is_digit_char by blast
  from dg(4) obtain e where ke: "e < 10" "y4 = digit_char e"
    unfolding is_digit_char by blast
  from dg(5) obtain f where kf: "f < 10" "m1 = digit_char f"
    unfolding is_digit_char by blast
  from dg(6) obtain g where kg: "g < 10" "m2 = digit_char g"
    unfolding is_digit_char by blast
  from dg(7) obtain h where kh: "h < 10" "d1 = digit_char h"
    unfolding is_digit_char by blast
  from dg(8) obtain i where ki: "i < 10" "d2 = digit_char i"
    unfolding is_digit_char by blast
  note k = ka(1) kb(1) kc(1) ke(1) kf(1) kg(1) kh(1) ki(1)
  note ch = ka(2) kb(2) kc(2) ke(2) kf(2) kg(2) kh(2) ki(2)
  let ?d = "\<lparr>year = int (1000 * a + 100 * b + 10 * c + e), month = int (10 * f + g),
             day = int (10 * h + i)\<rparr>"
  have "valid_date ?d"
    using v unfolding ch by (simp add: digit_value_char)
  moreover have "isoformat ?d = s"
    unfolding isoformat_def s ch ustr_classes
    by (simp only: date.simps format_four [OF k(1-4)] format_two [OF k(5,6)]
        format_two [OF k(7,8)]) simp
  ultimately show ?thesis
    by blast
qed

lemma isoformat_accepted:
  assumes "valid_date d"
  shows "accepted_form ucd d (isoformat d)"
proof -
  from assms have y: "1 \<le> year d" "year d \<le> 9999"
    by (simp_all add: valid_date_def MINYEAR_def MAXYEAR_def)
  from nat_digits4 [OF y] obtain a b c e where
    ds: "a < 10" "b < 10" "c < 10" "e < 10" and yd: "year d = int (1000 * a + 100 * b + 10 * c + e)"
    by blast
  have fy: "format_0d 4 (year d) = [digit_char a, digit_char b, digit_char c, digit_char e]"
    unfolding yd by (rule format_four [OF ds])
  have "year_field ucd (year d) (format_0d 4 (year d))"
    unfolding year_field_def fy
    using ds int_of_string_digits(1) [OF ds, of ucd] yd by (simp add: decimal_digit_char)
  moreover have "month_field (month d) (format_0d 2 (month d))"
    by (simp add: month_field_def)
  moreover have "day_field ucd (day d) (format_0d 2 (day d))"
    by (simp add: day_field_def)
  ultimately show ?thesis
    unfolding accepted_form_def isoformat_def by blast
qed

text \<open>
  C7. For every valid \<open>YYYY-MM-DD\<close> string both \<open>get_date_from_string\<close> functions return a
  date, and the ISO format of that date is the string itself. This holds whichever
  characters beyond ASCII the interpreter takes for decimal digits.
\<close>

theorem C7_round_trip:
  assumes "valid_iso_string s"
  shows "\<exists>d. get_date_from_string ucd s = Inr d \<and> utils_get_date_from_string ucd s = Inr d \<and>
             isoformat d = s"
proof -
  from valid_iso_string_isoformat [OF assms] obtain d where
    d: "valid_date d" "isoformat d = s"
    by blast
  have "strptime ucd s = Inr d"
    using strptime_accepts [OF d(1) isoformat_accepted [OF d(1)], of ucd] d(2) by simp
  then show ?thesis
    using d(2) get_date_from_string_strptime by blast
qed

lemma parse_2024_01_05:
  "valid_iso_string (ustr ''2024-01-05'')"
  "isoformat \<lparr>year = 2024, month = 1, day = 5\<rparr> = ustr ''2024-01-05''"
  by (simp_all add: ustr_def is_digit_def digit_value_def valid_date_def MINYEAR_def MAXYEAR_def
      days_in_month_def DAYS_IN_MONTH_def isoformat_def format_0d_def str_nat.simps
      digit_char_code)

lemma parse_examples:
  "get_date_from_string [1632] (ustr ''2024-01-05'') = Inr \<lparr>year = 2024, month = 1, day = 5\<rparr>"
  "utils_get_date_from_string [1632] (ustr ''2024-01-05'') =
     Inr \<lparr>year = 2024, month = 1, day = 5\<rparr>"
  by code_simp+

text \<open>
  An instance of C7: the string 2024-01-05, with the Arabic-Indic digits for the decimal
  digits beyond ASCII.
\<close>

theorem C7_witness:
  "valid_iso_string (ustr ''2024-01-05'') \<and>
   get_date_from_string [1632] (ustr ''2024-01-05'') = Inr \<lparr>year = 2024, month = 1, day = 5\<rparr> \<and>
   utils_get_date_from_string [1632] (ustr ''2024-01-05'') =
     Inr \<lparr>year = 2024, month = 1, day = 5\<rparr> \<and>
   isoformat \<lparr>year = 2024, month = 1, day = 5\<rparr> = ustr ''2024-01-05''"
  using C7_round_trip [of "ustr ''2024-01-05''" "[1632]"] parse_2024_01_05 parse_examples
  by blast

lemma valid_2024_01_05: "valid_date \<lparr>year = 2024, month = 1, day = 5\<rparr>"
  by (simp add: valid_date_def MINYEAR_def MAXYEAR_def days_in_month_def DAYS_IN_MONTH_def)

lemma short_form_accepted:
  "accepted_form ucd \<lparr>year = 2024, month = 1, day = 5\<rparr> (ustr ''2024-1-5'')"
proof -
  have "ustr ''2024-1-5'' = ustr ''2024'' @ ustr ''-'' @ ustr ''1'' @ ustr ''-'' @ ustr ''5''"
    by (simp add: ustr_def)
  moreover have "year_field ucd 2024 (ustr ''2024'')"
    by (simp add: year_field_def ustr_def decimal_def int_of_string_def)
  moreover have "month_field 1 (ustr ''1'')" "day_field ucd 5 (ustr ''5'')"
    by (simp_all add: month_field_def day_field_def ustr_def format_0d_def str_nat.simps
        digit_char_code)
  ultimately show ?thesis
    unfolding accepted_form_def date.simps by blast
qed

lemma short_form_parsed:
  "get_date_from_string ucd (ustr ''2024-1-5'') = Inr \<lparr>year = 2024, month = 1, day = 5\<rparr>"
  "utils_get_date_from_string ucd (ustr ''2024-1-5'') = Inr \<lparr>year = 2024, month = 1, day = 5\<rparr>"
  unfolding get_date_from_string_strptime
  by (rule strptime_accepts [OF valid_2024_01_05 short_form_accepted])+

lemma short_form_invalid: "\<not> valid_iso_string (ustr ''2024-1-5'')"
  by (simp add: ustr_def)

text \<open>
  C6, as stated, fails: the string 2024-1-5 is not a valid \<open>YYYY-MM-DD\<close> string (its
  month and day have one digit), yet both \<open>get_date_from_string\<close> functions accept it
  and return the 5th of January 2024. The string is ASCII, so this is so whichever
  characters beyond ASCII are decimal digits (\<open>short_form_parsed\<close>); the Arabic-Indic
  digits stand for them here.
\<close>

theorem C6_counterexample:
  "get_date_from_string [1632] (ustr ''2024-1-5'') = Inr \<lparr>year = 2024, month = 1, day = 5\<rparr> \<and>
   utils_get_date_from_string [1632] (ustr ''2024-1-5'') =
     Inr \<lparr>year = 2024, month = 1, day = 5\<rparr> \<and>
   \<not> valid_iso_string (ustr ''2024-1-5'')"
  using short_form_parsed [of "[1632]"] short_form_invalid by blast

text \<open>
  C6, amended. Both \<open>get_date_from_string\<close> functions accept exactly the accepted forms
  of the dates of the calendar: the year in four decimal digits, which may be of any
  script of Unicode, a hyphen, the month in two ASCII digits or without its leading
  zero, a hyphen, and the day in two ASCII digits, without its leading zero, with a
  blank in place of the zero, or, from 10 to 29, as the ASCII digit 1 or 2 and a decimal
  digit of any script. On every other string (a wrong separator, a field that is not a
  number, month 13, day 32, text before or after the date) the function of
  model/keras_models/utils.py fails with \<open>InvalidDateError\<close>, which carries the string,
  and the function of utils/utils.py fails with the \<open>ValueError\<close> of \<open>strptime\<close>.
\<close>

theorem C6_accepted_strings:
  "(get_date_from_string ucd s = Inr d \<longleftrightarrow> valid_date d \<and> accepted_form ucd d s) \<and>
   (utils_get_date_from_string ucd s = Inr d \<longleftrightarrow> valid_date d \<and> accepted_form ucd d s) \<and>
   ((\<forall>d'. valid_date d' \<longrightarrow> \<not> accepted_form ucd d' s) \<longrightarrow>
      get_date_from_string ucd s = Inl (InvalidDateError s) \<and>
      utils_get_date_from_string ucd s = Inl ValueError)"
proof -
  have c: "get_date_from_string ucd s = Inl (InvalidDateError s) \<and>
      utils_get_date_from_string ucd s = Inl ValueError"
    if "\<forall>d'. valid_date d' \<longrightarrow> \<not> accepted_form ucd d' s"
  proof -
    have "strptime ucd s = Inl ValueError"
      using that strptime_cases [of ucd s] strptime_iff by blast
    then show ?thesis
      by (simp add: get_date_from_string_def utils_get_date_from_string_def)
  qed
  show ?thesis
    using c strptime_iff [of ucd s d] unfolding get_date_from_string_strptime by blast
qed

lemma unicode_form_accepted:
  "accepted_form [1632] \<lparr>year = 2024, month = 1, day = 15\<rparr>
     ([1634, 48, 1634, 1636] @ ustr ''-01-1'' @ [1637])"
proof -
  have "[1634, 48, 1634, 1636] @ ustr ''-01-1'' @ [1637] =
        [1634, 48, 1634, 1636] @ ustr ''-'' @ ustr ''01'' @ ustr ''-'' @ [49, 1637]"
    by (simp add: ustr_def)
  moreover have "year_field [1632] 2024 [1634, 48, 1634, 1636]"
    by (simp add: year_field_def decimal_def int_of_string_def)
  moreover have "month_field 1 (ustr ''01'')"
    by (simp add: month_field_def ustr_def format_0d_def str_nat.simps digit_char_code)
  moreover have "day_field [1632] 15 [49, 1637]"
    by (simp add: day_field_def ustr_def decimal_def int_of_string_def)
  ultimately show ?thesis
    unfolding accepted_form_def date.simps by blast
qed

lemma valid_2024_01_15: "valid_date \<lparr>year = 2024, month = 1, day = 15\<rparr>"
  by (simp add: valid_date_def MINYEAR_def MAXYEAR_def days_in_month_def DAYS_IN_MONTH_def)

lemma malformed_examples:
  "get_date_from_string [1632] (ustr ''2024/01/05'') = Inl (InvalidDateError (ustr ''2024/01/05''))"
  "get_date_from_string [1632] (ustr ''20a4-01-05'') = Inl (InvalidDateError (ustr ''20a4-01-05''))"
  "get_date_from_string [1632] (ustr ''2024-13-01'') = Inl (InvalidDateError (ustr ''2024-13-01''))"
  "get_date_from_string [1632] (ustr ''2024-01-32'') = Inl (InvalidDateError (ustr ''2024-01-32''))"
  "get_date_from_string [1632] (ustr ''2024-01-05x'') =
     Inl (InvalidDateError (ustr ''2024-01-05x''))"
  "get_date_from_string [1632] (ustr '' 2024-01-05'') =
     Inl (InvalidDateError (ustr '' 2024-01-05''))"
  "get_date_from_string [1632] (ustr ''2024-'' @ [1632] @ ustr ''1-05'') =
     Inl (InvalidDateError (ustr ''2024-'' @ [1632] @ ustr ''1-05''))"
  "get_date_from_string [1632] (ustr ''2024-01-3'' @ [1632]) =
     Inl (InvalidDateError (ustr ''2024-01-3'' @ [1632]))"
  "utils_get_date_from_string [1632] (ustr ''2024-13-01'') = Inl ValueError"
  by code_simp+

text \<open>
  Instances, with the Arabic-Indic digits (the zero is the character 1632) for the
  decimal digits beyond ASCII. The 15th of January 2024 is accepted with its year in
  the digits 1634, 48, 1634, 1636 and its day as the ASCII 1 and the Arabic-Indic 5. A
  wrong separator, a field that is not a number, month 13, day 32, text after and text
  before the date, an Arabic-Indic digit in the month and one after the 3 of the day
  are rejected.
\<close>

theorem C6_witness:
  "valid_date \<lparr>year = 2024, month = 1, day = 15\<rparr> \<and>
   accepted_form [1632] \<lparr>year = 2024, month = 1, day = 15\<rparr>
     ([1634, 48, 1634, 1636] @ ustr ''-01-1'' @ [1637]) \<and>
   get_date_from_string [1632] ([1634, 48, 1634, 1636] @ ustr ''-01-1'' @ [1637]) =
     Inr \<lparr>year = 2024, month = 1, day = 15\<rparr> \<and>
   utils_get_date_from_string [1632] ([1634, 48, 1634, 1636] @ ustr ''-01-1'' @ [1637]) =
     Inr \<lparr>year = 2024, month = 1, day = 15\<rparr> \<and>
   get_date_from_string [1632] (ustr ''2024/01/05'') = Inl (InvalidDateError (ustr ''2024/01/05'')) \<and>
   get_date_from_string [1632] (ustr ''20a4-01-05'') = Inl (InvalidDateError (ustr ''20a4-01-05'')) \<and>
   get_date_from_string [1632] (ustr ''2024-13-01'') = Inl (InvalidDateError (ustr ''2024-13-01'')) \<and>
   get_date_from_string [1632] (ustr ''2024-01-32'') = Inl (InvalidDateError (ustr ''2024-01-32'')) \<and>
   get_date_from_string [1632] (ustr ''2024-01-05x'') =
     Inl (InvalidDateError (ustr ''2024-01-05x'')) \<and>
   get_date_from_string [1632] (ustr '' 2024-01-05'') =
     Inl (InvalidDateError (ustr '' 2024-01-05'')) \<and>
   get_date_from_string [1632] (ustr ''2024-'' @ [1632] @ ustr ''1-05'') =
     Inl (InvalidDateError (ustr ''2024-'' @ [1632] @ ustr ''1-05'')) \<and>
   get_date_from_string [1632] (ustr ''2024-01-3'' @ [1632]) =
     Inl (InvalidDateError (ustr ''2024-01-3'' @ [1632])) \<and>
   utils_get_date_from_string [1632] (ustr ''2024-13-01'') = Inl ValueError"
  using C6_accepted_strings [of "[1632]" "[1634, 48, 1634, 1636] @ ustr ''-01-1'' @ [1637]"
      "\<lparr>year = 2024, month = 1, day = 15\<rparr>"]
    valid_2024_01_15 unicode_form_accepted malformed_examples
  by blast

end
